theory Spec2Isabelle
  imports
    Main
    "HOL-Library.Product_Lexorder"
    "HOL-Library.List_Lexorder"
    "HOL-Library.Sublist"
    "HOL-Library.Multiset"
begin

section \<open>Python values\<close>

text \<open>
  A Python \<open>str\<close> is a sequence of Unicode code points, compared code point by code
  point (a proper prefix is smaller). It is modelled as a list of code points with the
  lexicographic order on lists; \<open>ascii\<close> embeds the ASCII literals of the source.
\<close>

type_synonym str = "nat list"

definition ascii :: "string \<Rightarrow> str" where
  "ascii s = map of_char s"

text \<open>\<open>str.isspace\<close> for one code point: the characters \<open>strip()\<close> removes.\<close>

definition is_space :: "nat \<Rightarrow> bool" where
  "is_space c \<longleftrightarrow>
     c \<in> set [9, 10, 11, 12, 13, 28, 29, 30, 31, 32, 133, 160, 5760,
               8192, 8193, 8194, 8195, 8196, 8197, 8198, 8199, 8200, 8201, 8202,
               8232, 8233, 8239, 8287, 12288]"

definition lstrip :: "str \<Rightarrow> str" where
  "lstrip s = dropWhile is_space s"

definition rstrip :: "str \<Rightarrow> str" where
  "rstrip s = rev (dropWhile is_space (rev s))"

definition strip :: "str \<Rightarrow> str" where
  "strip s = rstrip (lstrip s)"

text \<open>\<open>line.rstrip("\n")\<close>: every trailing line feed is removed.\<close>

definition rstrip_nl :: "str \<Rightarrow> str" where
  "rstrip_nl s = rev (dropWhile (\<lambda>c. c = 10) (rev s))"

text \<open>
  \<open>s[a:b]\<close>: a negative index counts from the end, and both indices are clamped
  to the string.
\<close>

definition slice_index :: "nat \<Rightarrow> int \<Rightarrow> nat" where
  "slice_index n i = (if i < 0 then nat (max 0 (i + int n)) else min n (nat i))"

definition py_slice :: "'a list \<Rightarrow> int \<Rightarrow> int \<Rightarrow> 'a list" where
  "py_slice s a b = take (slice_index (length s) b - slice_index (length s) a)
                         (drop (slice_index (length s) a) s)"

text \<open>\<open>str(n)\<close> for an integer: decimal digits, with a minus sign when negative.\<close>

function str_of_nat :: "nat \<Rightarrow> str" where
  "str_of_nat n = (if n < 10 then [48 + n] else str_of_nat (n div 10) @ [48 + n mod 10])"
  by pat_completeness auto
termination
  by (relation "measure (\<lambda>n. n)") auto

definition str_of_int :: "int \<Rightarrow> str" where
  "str_of_int i = (if i < 0 then 45 # str_of_nat (nat (- i)) else str_of_nat (nat i))"

text \<open>
  \<open>haystack.find(needle, start)\<close>: the lowest index at or after \<open>start\<close> where
  \<open>needle\<close> occurs, or \<open>-1\<close> (here \<open>None\<close>).
\<close>

fun find_first :: "'a list \<Rightarrow> 'a list \<Rightarrow> nat option" where
  "find_first needle [] = (if needle = [] then Some 0 else None)"
| "find_first needle (c # cs) =
     (if prefix needle (c # cs) then Some 0
      else map_option Suc (find_first needle cs))"

definition str_find :: "'a list \<Rightarrow> 'a list \<Rightarrow> nat \<Rightarrow> nat option" where
  "str_find haystack needle start =
     (if length haystack < start then None
      else map_option (\<lambda>i. i + start) (find_first needle (drop start haystack)))"

text \<open>\<open>needle in haystack\<close>.\<close>

definition str_contains :: "'a list \<Rightarrow> 'a list \<Rightarrow> bool" where
  "str_contains needle haystack \<longleftrightarrow> find_first needle haystack \<noteq> None"

text \<open>A CSV row as \<open>csv.DictReader\<close> yields it: a dict whose values are a string, or
  \<open>None\<close> for a cell the row is too short to hold. A column the header lacks is a
  missing key. \<open>row.get(k) or ""\<close> reads a missing key, a missing cell and an empty cell
  alike.\<close>

type_synonym row = "str \<rightharpoonup> str option"

definition row_get_or_empty :: "row \<Rightarrow> str \<Rightarrow> str" where
  "row_get_or_empty r k = (case r k of Some (Some v) \<Rightarrow> v | _ \<Rightarrow> [])"

text \<open>
  \<open>pathlib.Path\<close>: a path is the list of the segments it was joined from. What
  \<open>str(path)\<close> prints is pathlib's normalised text, which the world provides.
\<close>

datatype path = Path "str list"

fun path_div :: "path \<Rightarrow> str \<Rightarrow> path" where
  "path_div (Path segs) s = Path (segs @ [s])"

fun intercalate :: "str \<Rightarrow> str list \<Rightarrow> str" where
  "intercalate sep [] = []"
| "intercalate sep [s] = s"
| "intercalate sep (s # t # ss) = s @ sep @ intercalate sep (t # ss)"

datatype exn = FileNotFoundError str | KeyError str

section \<open>cli.py: the catalog\<close>

definition UNKNOWN_DATE_KEY :: "int \<times> int" where
  "UNKNOWN_DATE_KEY = (10 ^ 9, 10 ^ 9)"

record Book =
  work_id :: str
  title :: str
  dynasty_label :: str
  author_label :: str
  rel_path :: str
  path :: path
  date_not_before :: "int option"
  date_not_after :: "int option"

record Match =
  book :: Book
  line_no :: int
  offset :: int
  term_s :: str
  line :: str

text \<open>
  \<open>load_date_ranges\<close>. \<open>int(...)\<close> is Python's own parser, taken as the parameter
  \<open>to_int\<close> (\<open>None\<close> where it raises ValueError); \<open>int(None)\<close> raises TypeError.
  Both are caught and the row is skipped. \<open>row["date_not_before"]\<close> on a missing key
  raises KeyError, which is not caught. \<open>date_row_candidate\<close> is the part of the loop
  body up to \<open>candidate\<close>: the error, \<open>None\<close> for \<open>continue\<close>, or the work id and
  the candidate pair.
\<close>

definition date_row_candidate ::
  "(str \<Rightarrow> int option) \<Rightarrow> row \<Rightarrow> exn + (str \<times> int \<times> int) option"
where
  "date_row_candidate to_int r =
     (let wid = strip (row_get_or_empty r (ascii ''work_id'')) in
      if wid = [] then Inr None
      else
        case r (ascii ''date_not_before'') of
          None \<Rightarrow> Inl (KeyError (ascii ''date_not_before''))
        | Some None \<Rightarrow> Inr None
        | Some (Some b) \<Rightarrow>
            (case to_int b of
               None \<Rightarrow> Inr None
             | Some nb \<Rightarrow>
                 (case r (ascii ''date_not_after'') of
                    None \<Rightarrow> Inl (KeyError (ascii ''date_not_after''))
                  | Some None \<Rightarrow> Inr None
                  | Some (Some a) \<Rightarrow>
                      (case to_int a of
                         None \<Rightarrow> Inr None
                       | Some na \<Rightarrow> Inr (Some (wid, (nb, na)))))))"

fun load_date_ranges_loop ::
  "(str \<Rightarrow> int option) \<Rightarrow> row list \<Rightarrow> (str \<rightharpoonup> int \<times> int) \<Rightarrow> exn + (str \<rightharpoonup> int \<times> int)"
where
  "load_date_ranges_loop to_int [] ranges = Inr ranges"
| "load_date_ranges_loop to_int (r # rows) ranges =
     (case date_row_candidate to_int r of
        Inl e \<Rightarrow> Inl e
      | Inr None \<Rightarrow> load_date_ranges_loop to_int rows ranges
      | Inr (Some (wid, candidate)) \<Rightarrow>
          (case ranges wid of
             None \<Rightarrow> load_date_ranges_loop to_int rows (ranges(wid \<mapsto> candidate))
           | Some current \<Rightarrow>
               if candidate < current
               then load_date_ranges_loop to_int rows (ranges(wid \<mapsto> candidate))
               else load_date_ranges_loop to_int rows ranges))"

definition load_date_ranges ::
  "(str \<Rightarrow> int option) \<Rightarrow> row list \<Rightarrow> exn + (str \<rightharpoonup> int \<times> int)"
where
  "load_date_ranges to_int rows = load_date_ranges_loop to_int rows Map.empty"

definition book_sort_key :: "Book \<Rightarrow> int \<times> int \<times> str \<times> str" where
  "book_sort_key b =
     (let date_key =
        (if date_not_before b = None \<or> date_not_after b = None
         then UNKNOWN_DATE_KEY
         else (the (date_not_before b), the (date_not_after b)))
      in (fst date_key, snd date_key, work_id b, rel_path b))"

text \<open>\<open>load_books\<close>: the rows with a non-blank path, in file order, then the stable sort.\<close>

fun load_books_rows :: "path \<Rightarrow> (str \<rightharpoonup> int \<times> int) \<Rightarrow> row list \<Rightarrow> Book list" where
  "load_books_rows data_dir date_ranges [] = []"
| "load_books_rows data_dir date_ranges (r # rows) =
     (let rp = strip (row_get_or_empty r (ascii ''path'')) in
      if rp = [] then load_books_rows data_dir date_ranges rows
      else
        let date_range = date_ranges (strip (row_get_or_empty r (ascii ''work_id'')))
        in \<lparr> work_id = strip (row_get_or_empty r (ascii ''work_id'')),
             title = strip (row_get_or_empty r (ascii ''title'')),
             dynasty_label = strip (row_get_or_empty r (ascii ''dynasty_label'')),
             author_label = strip (row_get_or_empty r (ascii ''author_label'')),
             rel_path = rp,
             path = path_div data_dir rp,
             date_not_before = map_option fst date_range,
             date_not_after = map_option snd date_range \<rparr>
           # load_books_rows data_dir date_ranges rows)"

definition load_books :: "path \<Rightarrow> (str \<rightharpoonup> int \<times> int) \<Rightarrow> row list \<Rightarrow> Book list" where
  "load_books data_dir date_ranges rows =
     sort_key book_sort_key (load_books_rows data_dir date_ranges rows)"

section \<open>cli.py: the scanner\<close>

text \<open>
  The inner \<open>while True\<close> loop of \<open>iter_line_matches\<close> for one variant, from position
  \<open>start\<close>. The test \<open>term_len == 0\<close>, which the source makes once before the loop,
  is what makes the loop end, so it is part of the recursion here.
\<close>

function line_find_loop :: "str \<Rightarrow> str \<Rightarrow> nat \<Rightarrow> (nat \<times> str) list" where
  "line_find_loop ln t start =
     (if length t = 0 then []
      else case str_find ln t start of
             None \<Rightarrow> []
           | Some idx \<Rightarrow> (idx, t) # line_find_loop ln t (idx + length t))"
  by pat_completeness auto
termination
proof (relation "measure (\<lambda>(ln, t, start). Suc (length ln) - start)")
  show "wf (measure (\<lambda>(ln, t, start). Suc (length ln) - start))"
    by simp
next
  fix ln t :: str and start idx :: nat
  assume nonempty: "length t \<noteq> 0" and found: "str_find ln t start = Some idx"
  have first: "find_first t hay = Some i \<Longrightarrow> i + length t \<le> length hay" for hay i
  proof (induction hay arbitrary: i)
    case Nil
    then show ?case by (simp split: if_splits)
  next
    case (Cons c cs)
    show ?case
    proof (cases "prefix t (c # cs)")
      case True
      then show ?thesis using Cons.prems by (auto dest: prefix_length_le)
    next
      case False
      then obtain j where "find_first t cs = Some j" "i = Suc j"
        using Cons.prems by auto
      then show ?thesis using Cons.IH by fastforce
    qed
  qed
  from found obtain i where "find_first t (drop start ln) = Some i" "idx = i + start"
    "start \<le> length ln"
    by (auto simp: str_find_def split: if_splits)
  with first [of "drop start ln" i] nonempty
  have "start \<le> idx" "idx + length t \<le> length ln" "0 < length t"
    by auto
  then have "Suc (length ln) - (idx + length t) < Suc (length ln) - start"
    by linarith
  then show "((ln, t, idx + length t), (ln, t, start))
               \<in> measure (\<lambda>(ln, t, start). Suc (length ln) - start)"
    by simp
qed

declare line_find_loop.simps [simp del]

definition iter_line_matches :: "str \<Rightarrow> str list \<Rightarrow> (nat \<times> str) list" where
  "iter_line_matches ln variants =
     sort_key (\<lambda>item. (fst item, snd item))
       (concat (map (\<lambda>t. line_find_loop ln t 0) variants))"

text \<open>
  \<open>iter_matches\<close> is a generator; the model is the list of what it yields. The file
  system is a function from a path to the lines of the file, \<open>None\<close> when the path does
  not exist. \<open>candidate_matches\<close> is what the two nested \<open>for\<close> loops reach, in order;
  \<open>emit\<close> yields them while counting \<open>remaining\<close> down.
\<close>

type_synonym files = "path \<Rightarrow> str list option"

fun candidate_matches :: "Book \<Rightarrow> str list \<Rightarrow> int \<Rightarrow> str list \<Rightarrow> Match list" where
  "candidate_matches b variants n [] = []"
| "candidate_matches b variants n (raw # rest) =
     (let ln = rstrip_nl raw in
      map (\<lambda>(off, t). \<lparr> book = b, line_no = n, offset = int off, term_s = t, line = ln \<rparr>)
          (iter_line_matches ln variants)
      @ candidate_matches b variants (n + 1) rest)"

fun emit :: "int option \<Rightarrow> Match list \<Rightarrow> Match list" where
  "emit remaining [] = []"
| "emit remaining (m # ms) =
     m # (case remaining of
            None \<Rightarrow> emit None ms
          | Some r \<Rightarrow> if r - 1 \<le> 0 then [] else emit (Some (r - 1)) ms)"

definition iter_matches :: "files \<Rightarrow> Book \<Rightarrow> str list \<Rightarrow> int option \<Rightarrow> Match list" where
  "iter_matches fs b variants max_matches =
     (case fs (path b) of
        None \<Rightarrow> []
      | Some lns \<Rightarrow> emit max_matches (candidate_matches b variants 1 lns))"

text \<open>The scan loop of \<open>main\<close> (lines 229 to 236), threading \<open>results\<close>.\<close>

fun scan_loop :: "files \<Rightarrow> str list \<Rightarrow> int \<Rightarrow> bool \<Rightarrow> Book list \<Rightarrow> Match list \<Rightarrow> Match list" where
  "scan_loop fs variants limit dedup [] results = results"
| "scan_loop fs variants limit dedup (b # books) results =
     (let remaining = limit - int (length results) in
      if remaining \<le> 0 then results
      else
        let per_book_limit = (if dedup then 1 else remaining)
        in scan_loop fs variants limit dedup books
             (results @ iter_matches fs b variants (Some per_book_limit)))"

definition render_snippet :: "str \<Rightarrow> int \<Rightarrow> str \<Rightarrow> int \<Rightarrow> str" where
  "render_snippet ln off t context =
     (let ln1 = rstrip (map (\<lambda>c. if c = 9 then 32 else c) ln);
          context1 = max context 0;
          start = max 0 (off - context1);
          end = min (int (length ln1)) (off + int (length t) + context1);
          pre = py_slice ln1 start off;
          mat = py_slice ln1 off (off + int (length t));
          suf = py_slice ln1 (off + int (length t)) end;
          left_marker = (if start > 0 then ascii ''...'' else []);
          right_marker = (if end < int (length ln1) then ascii ''...'' else [])
      in strip (left_marker @ pre @ [91] @ mat @ [93] @ suf @ right_marker))"

definition format_date_range :: "Book \<Rightarrow> str" where
  "format_date_range b =
     (if date_not_before b = None \<or> date_not_after b = None then ascii ''unknown''
      else str_of_int (the (date_not_before b)) @ ascii ''..'' @ str_of_int (the (date_not_after b)))"

section \<open>cli.py: main\<close>

text \<open>
  What \<open>main\<close> reads from outside: the parsed arguments, and the world it runs in:
  which paths exist, the working directory and the package root, the text \<open>str\<close>
  gives for a path, the rows \<open>csv.DictReader\<close> yields for a file or the exception
  that opening it raises, the text files of the corpus, the two OpenCC converters,
  Python's \<open>int\<close>, and the program name and usage text argparse prints.
\<close>

record args =
  term_arg :: str
  limit :: int
  context_arg :: int
  data_dir :: "str option"
  dedup :: bool

record world =
  fs_exists :: "path \<Rightarrow> bool"
  cwd :: path
  package_root :: path
  path_text :: "path \<Rightarrow> str"
  csv_rows :: "path \<Rightarrow> exn + row list"
  text_files :: files
  s2t :: "str \<Rightarrow> str"
  t2s :: "str \<Rightarrow> str"
  to_int_py :: "str \<Rightarrow> int option"
  prog :: str
  usage :: str

definition resolve_data_dir :: "world \<Rightarrow> str option \<Rightarrow> exn + path" where
  "resolve_data_dir w explicit =
     (if explicit \<noteq> None \<and> the explicit \<noteq> [] then
        (let dd = Path [the explicit] in
         if \<not> fs_exists w (path_div dd (ascii ''books.csv''))
         then Inl (FileNotFoundError (ascii ''books.csv not found in '' @ path_text w dd))
         else Inr dd)
      else
        (let cwd_data = path_div (cwd w) (ascii ''data'') in
         if fs_exists w (path_div cwd_data (ascii ''books.csv'')) then Inr cwd_data
         else
           (let package_data = path_div (package_root w) (ascii ''data'') in
            if fs_exists w (path_div package_data (ascii ''books.csv'')) then Inr package_data
            else Inl (FileNotFoundError
                        (ascii ''could not locate data directory (expected data/books.csv)'')))))"

definition term_variants :: "world \<Rightarrow> str \<Rightarrow> str list" where
  "term_variants w t = sort (remdups (filter (\<lambda>v. v \<noteq> []) [strip t, s2t w t, t2s w t]))"

text \<open>
  Lines 225 to 236: the two loads and the scan. An exception of \<open>open\<close> or of
  \<open>load_date_ranges\<close> is not caught by \<open>main\<close>.
\<close>

definition run_query :: "world \<Rightarrow> args \<Rightarrow> path \<Rightarrow> str \<Rightarrow> exn + (str list \<times> Match list)" where
  "run_query w a dd t =
     (case csv_rows w (path_div dd (ascii ''publication_date_range.csv'')) of
        Inl e \<Rightarrow> Inl e
      | Inr date_rows \<Rightarrow>
          (case load_date_ranges (to_int_py w) date_rows of
             Inl e \<Rightarrow> Inl e
           | Inr date_ranges \<Rightarrow>
               (case csv_rows w (path_div dd (ascii ''books.csv'')) of
                  Inl e \<Rightarrow> Inl e
                | Inr book_rows \<Rightarrow>
                    (let books = load_books dd date_ranges book_rows;
                         variants = term_variants w t
                     in Inr (variants,
                             scan_loop (text_files w) variants (limit a) (dedup a) books [])))))"

fun exn_message :: "exn \<Rightarrow> str" where
  "exn_message (FileNotFoundError msg) = msg"
| "exn_message (KeyError k) = [39] @ k @ [39]"

fun result_lines :: "int \<Rightarrow> int \<Rightarrow> Match list \<Rightarrow> str list" where
  "result_lines ctx idx [] = []"
| "result_lines ctx idx (m # ms) =
     (let b = book m;
          date_label = format_date_range b;
          author = (if author_label b = [] then ascii ''-'' else author_label b);
          dynasty = (if dynasty_label b = [] then ascii ''-'' else dynasty_label b);
          location = rel_path b @ ascii '':'' @ str_of_int (line_no m);
          snippet = render_snippet (line m) (offset m) (term_s m) ctx
      in [str_of_int idx @ ascii '') '' @ date_label @ ascii '' | '' @ work_id b
            @ ascii '' | '' @ title b @ ascii '' | '' @ dynasty @ ascii '' | '' @ author
            @ ascii '' | '' @ location,
          ascii ''    '' @ snippet]
         @ result_lines ctx (idx + 1) ms)"

text \<open>
  How a call of \<open>main\<close> ends: it returns a code, or \<open>parser.error\<close> leaves through
  SystemExit with status 2, or an exception escapes. The two streams are the list of
  what was written to each, one entry for each write, without its final line feed.
  \<open>parser.error\<close> writes the usage text and then the line
  \<open>prog: error: message\<close> to the error stream.
\<close>

datatype outcome = Return int | SystemExit int | Raise exn

record run =
  stdout :: "str list"
  stderr :: "str list"
  outcome :: outcome

definition main :: "world \<Rightarrow> args \<Rightarrow> run" where
  "main w a =
     (let t = strip (term_arg a) in
      if t = [] then
        \<lparr> stdout = [],
          stderr = [usage w, prog w @ ascii '': error: term must be non-empty''],
          outcome = SystemExit 2 \<rparr>
      else if limit a < 1 then
        \<lparr> stdout = [],
          stderr = [usage w, prog w @ ascii '': error: limit must be >= 1''],
          outcome = SystemExit 2 \<rparr>
      else
        case resolve_data_dir w (data_dir a) of
          Inl exc \<Rightarrow>
            \<lparr> stdout = [], stderr = [ascii ''error: '' @ exn_message exc],
              outcome = Return 2 \<rparr>
        | Inr dd \<Rightarrow>
            (case run_query w a dd t of
               Inl exc \<Rightarrow> \<lparr> stdout = [], stderr = [], outcome = Raise exc \<rparr>
             | Inr (variants, results) \<Rightarrow>
                 \<lparr> stdout =
                     [ascii ''query: '' @ t,
                      ascii ''variants: '' @ intercalate (ascii '', '') variants,
                      ascii ''limit: '' @ str_of_int (limit a),
                      ascii ''dedup: '' @ (if dedup a then ascii ''on'' else ascii ''off''),
                      ascii ''results: '' @ str_of_int (int (length results)),
                      []]
                     @ result_lines (context_arg a) 1 results,
                   stderr = [],
                   outcome = (if results = [] then Return 1 else Return 0) \<rparr>))"

section \<open>scan_books.py: the date cascade\<close>

definition DYNASTY_ALIASES :: "str \<rightharpoonup> str" where
  "DYNASTY_ALIASES = map_of
     [([21069, 28450], [35199, 28450]),
      ([24460, 28450], [26481, 28450]),
      ([34560, 28450], [34560]),
      ([26481, 21555], [21555]),
      ([23403, 21555], [21555]),
      ([21335, 26397, 23435], [21129, 23435]),
      ([23435, 40, 21335, 26397, 41], [21129, 23435])]"

definition PREFERRED_FUNCTIONS :: "str list" where
  "PREFERRED_FUNCTIONS =
     [[25776], [33879], [32232], [32386], [36655], [35695], [27880], [35387], [30095],
      [36848], [26657], [26657, 35330], [32771], [32771, 35036], [35299], [20659],
      [38899, 32681]]"

definition UNKNOWN_AUTHOR_MARKERS :: "str list" where
  "UNKNOWN_AUTHOR_MARKERS =
     [[20314, 21517], [38357, 21517], [19981, 35443], [26410, 30693], [22833, 21517],
      [19981, 33879, 25776, 20154], [20316, 32773, 19981, 35443],
      [19981, 30693, 25776, 20154]]"

record ScanBook =
  collection :: str
  work_id :: str
  title :: str
  dynasty_label :: str
  author_label :: str
  filename :: str
  path :: str

record PersonEvidence =
  work_id :: str
  person_name :: str
  function_s :: str
  dynasty_label :: str
  raw_dates :: str
  date_not_before :: "int option"
  date_not_after :: "int option"

record CBDBPerson =
  person_id :: str
  name :: str
  birth_year :: "int option"
  death_year :: "int option"
  fl_earliest :: "int option"
  fl_latest :: "int option"

text \<open>
  \<open>PAREN_RE.sub("", name)\<close>: at an opening bracket the pattern takes every character
  that is not a closing bracket and then needs a closing one; where none follows, the
  bracket stays.
\<close>

definition is_open_paren :: "nat \<Rightarrow> bool" where
  "is_open_paren c \<longleftrightarrow> c = 65288 \<or> c = 40"

definition is_close_paren :: "nat \<Rightarrow> bool" where
  "is_close_paren c \<longleftrightarrow> c = 65289 \<or> c = 41"

function paren_sub :: "str \<Rightarrow> str" where
  "paren_sub [] = []"
| "paren_sub (c # cs) =
     (if is_open_paren c \<and> dropWhile (\<lambda>x. \<not> is_close_paren x) cs \<noteq> []
      then paren_sub (tl (dropWhile (\<lambda>x. \<not> is_close_paren x) cs))
      else c # paren_sub cs)"
  by pat_completeness auto
termination
proof (relation "measure length")
  show "wf (measure length)" by simp
next
  fix c :: nat and cs :: str
  have "length (tl (dropWhile (\<lambda>x. \<not> is_close_paren x) cs)) \<le> length cs"
    using length_dropWhile_le [of "\<lambda>x. \<not> is_close_paren x" cs] by simp
  then show "(tl (dropWhile (\<lambda>x. \<not> is_close_paren x) cs), c # cs) \<in> measure length"
    by simp
next
  fix c :: nat and cs :: str
  show "(cs, c # cs) \<in> measure length" by simp
qed

definition normalize_author_name :: "str \<Rightarrow> str option" where
  "normalize_author_name label =
     (let n0 = strip label in
      if n0 = [] then None
      else
        let n1 = strip (paren_sub n0) in
        if n1 = [] then None
        else if list_ex (\<lambda>marker. str_contains marker n1) UNKNOWN_AUTHOR_MARKERS then None
        else Some n1)"

definition resolve_dynasty_range ::
  "str \<Rightarrow> (str \<rightharpoonup> int \<times> int) \<Rightarrow> int option \<times> int option \<times> str"
where
  "resolve_dynasty_range label ranges =
     (if label = [] then (None, None, ascii ''missing dynasty label'')
      else
        let normalized = (case DYNASTY_ALIASES label of None \<Rightarrow> label | Some c \<Rightarrow> c) in
        case ranges normalized of
          None \<Rightarrow> (None, None, ascii ''unmapped dynasty label='' @ label)
        | Some (nb, na) \<Rightarrow>
            if normalized \<noteq> label
            then (Some nb, Some na,
                  ascii ''dynasty_label='' @ label @ ascii '' alias='' @ normalized)
            else (Some nb, Some na, ascii ''dynasty_label='' @ label))"

text \<open>The score \<open>choose_best_evidence\<close> computes for one item (lines 414 to 420).\<close>

definition evidence_score :: "PersonEvidence \<Rightarrow> int" where
  "evidence_score item =
     (if date_not_before item \<noteq> None \<and> date_not_after item \<noteq> None then 2
      else if date_not_before item \<noteq> None \<or> date_not_after item \<noteq> None then 1
      else 0)
     + (if function_s item \<in> set PREFERRED_FUNCTIONS then 1 else 0)"

fun choose_best_loop ::
  "PersonEvidence list \<Rightarrow> PersonEvidence option \<Rightarrow> int \<Rightarrow> PersonEvidence option"
where
  "choose_best_loop [] best best_score = best"
| "choose_best_loop (item # rest) best best_score =
     (let score = evidence_score item in
      if score > best_score then choose_best_loop rest (Some item) score
      else choose_best_loop rest best best_score)"

definition choose_best_evidence :: "PersonEvidence list \<Rightarrow> PersonEvidence option" where
  "choose_best_evidence evidence = choose_best_loop evidence None (- 1)"

fun choose_cbdb_person :: "CBDBPerson list \<Rightarrow> CBDBPerson option" where
  "choose_cbdb_person [] = None"
| "choose_cbdb_person [p] = Some p"
| "choose_cbdb_person candidates = None"

definition cbdb_date_range :: "CBDBPerson \<Rightarrow> int option \<times> int option \<times> str" where
  "cbdb_date_range person =
     (if birth_year person \<noteq> None \<and> death_year person \<noteq> None
      then (birth_year person, death_year person, ascii ''author_lifespan_bound'')
      else if fl_earliest person \<noteq> None \<and> fl_latest person \<noteq> None
      then (fl_earliest person, fl_latest person, ascii ''floruit_bound'')
      else (None, None, []))"

text \<open>
  One row of the date-range table, as the dict handed to the CSV writer; a date
  written as the empty string is \<open>None\<close>.
\<close>

record DateRow =
  work_id :: str
  source :: str
  date_not_before :: "int option"
  date_not_after :: "int option"
  date_type :: str
  confidence :: str
  note_s :: str
  ref :: str

text \<open>
  The body of the loop of \<open>write_publication_date_ranges\<close>, one tier at a time: each
  tier is the row it writes before its \<open>continue\<close>, or \<open>None\<close> when control falls
  through to the next tier.
\<close>

definition cbdb_tier :: "ScanBook \<Rightarrow> (str \<rightharpoonup> CBDBPerson list) \<Rightarrow> DateRow option" where
  "cbdb_tier b cbdb_people =
     (case normalize_author_name (ScanBook.author_label b) of
        None \<Rightarrow> None
      | Some author_name \<Rightarrow>
          (let cbdb_candidates = (case cbdb_people author_name of None \<Rightarrow> [] | Some ps \<Rightarrow> ps) in
           case choose_cbdb_person cbdb_candidates of
             None \<Rightarrow> None
           | Some cbdb_person \<Rightarrow>
               (case cbdb_date_range cbdb_person of
                  (nb, na, dtype) \<Rightarrow>
                    if nb \<noteq> None \<and> na \<noteq> None
                    then Some \<lparr> work_id = ScanBook.work_id b,
                                source = ascii ''cbdb'',
                                date_not_before = nb,
                                date_not_after = na,
                                date_type = dtype,
                                confidence = ascii ''medium'',
                                note_s = ascii ''name='' @ name cbdb_person
                                       @ ascii '' id='' @ person_id cbdb_person,
                                ref = ascii ''CBDB_20240208_DATA2'' \<rparr>
                    else None)))"

definition catalog_tier :: "ScanBook \<Rightarrow> (str \<rightharpoonup> PersonEvidence list) \<Rightarrow> DateRow option" where
  "catalog_tier b kr_evidence =
     (let evidence = (case kr_evidence (ScanBook.work_id b) of None \<Rightarrow> [] | Some es \<Rightarrow> es);
          best = (if evidence \<noteq> [] then choose_best_evidence evidence else None)
      in case best of
           None \<Rightarrow> None
         | Some e \<Rightarrow>
             Some \<lparr> work_id = ScanBook.work_id b,
                    source = ascii ''kr_catalog'',
                    date_not_before = PersonEvidence.date_not_before e,
                    date_not_after = PersonEvidence.date_not_after e,
                    date_type = ascii ''author_lifespan_bound'',
                    confidence =
                      (if PersonEvidence.date_not_before e = None
                          \<or> PersonEvidence.date_not_after e = None
                       then ascii ''low'' else ascii ''medium''),
                    note_s = ascii ''person='' @ person_name e
                           @ ascii '' function='' @ function_s e
                           @ ascii '' dates='' @ raw_dates e,
                    ref = ascii ''KR-Catalog'' \<rparr>)"

definition dynasty_tier :: "ScanBook \<Rightarrow> (str \<rightharpoonup> int \<times> int) \<Rightarrow> DateRow" where
  "dynasty_tier b ranges =
     (case resolve_dynasty_range (ScanBook.dynasty_label b) ranges of
        (nb, na, nt) \<Rightarrow>
          \<lparr> work_id = ScanBook.work_id b,
            source = ascii ''filename_dynasty'',
            date_not_before = nb,
            date_not_after = na,
            date_type = ascii ''dynasty_bound'',
            confidence = ascii ''low'',
            note_s = nt,
            ref = [] \<rparr>)"

definition publication_date_row ::
  "ScanBook \<Rightarrow> (str \<rightharpoonup> int \<times> int) \<Rightarrow> (str \<rightharpoonup> PersonEvidence list)
     \<Rightarrow> (str \<rightharpoonup> CBDBPerson list) \<Rightarrow> DateRow"
where
  "publication_date_row b ranges kr_evidence cbdb_people =
     (case cbdb_tier b cbdb_people of
        Some r \<Rightarrow> r
      | None \<Rightarrow>
          (case catalog_tier b kr_evidence of
             Some r \<Rightarrow> r
           | None \<Rightarrow> dynasty_tier b ranges))"

text \<open>The rows \<open>write_publication_date_ranges\<close> writes after the header, in order.\<close>

definition write_publication_date_ranges ::
  "ScanBook list \<Rightarrow> (str \<rightharpoonup> int \<times> int) \<Rightarrow> (str \<rightharpoonup> PersonEvidence list)
     \<Rightarrow> (str \<rightharpoonup> CBDBPerson list) \<Rightarrow> DateRow list"
where
  "write_publication_date_ranges books ranges kr_evidence cbdb_people =
     map (\<lambda>b. publication_date_row b ranges kr_evidence cbdb_people) books"

text \<open>
  \<open>flush_person\<close> of the catalog parser: the evidence record it appends for the
  person being read, if any. \<open>parse_dates\<close> is a parameter here: what is proved about
  the flush holds for every way of reading the date text.
\<close>

definition flush_person ::
  "(str \<Rightarrow> int option \<times> int option) \<Rightarrow> str option \<Rightarrow> str option \<Rightarrow> (str \<rightharpoonup> str)
     \<Rightarrow> PersonEvidence option"
where
  "flush_person parse_dates current_work_id current_person current_props =
     (if current_work_id = None \<or> current_work_id = Some []
         \<or> current_person = None \<or> current_person = Some []
      then None
      else
        let rd = strip (case current_props (ascii ''DATES'') of None \<Rightarrow> [] | Some v \<Rightarrow> v) in
        if rd = [] then None
        else
          case parse_dates rd of
            (nb, na) \<Rightarrow>
              if nb = None \<and> na = None then None
              else Some \<lparr> PersonEvidence.work_id = the current_work_id,
                          person_name = the current_person,
                          function_s =
                            strip (case current_props (ascii ''FUNCTION'') of
                                     None \<Rightarrow> [] | Some v \<Rightarrow> v),
                          PersonEvidence.dynasty_label =
                            strip (case current_props (ascii ''DYNASTY'') of
                                     None \<Rightarrow> [] | Some v \<Rightarrow> v),
                          raw_dates = rd,
                          PersonEvidence.date_not_before = nb,
                          PersonEvidence.date_not_after = na \<rparr>)"

section \<open>Notions of the claims\<close>

text \<open>
  What a row of the date-range table says, in the words of the claim about
  \<open>load_date_ranges\<close>: its work identifier with surrounding blanks removed, and the
  pair of its two date fields when both cells are present and both are integers.
\<close>

definition row_work_id :: "row \<Rightarrow> str" where
  "row_work_id r = strip (row_get_or_empty r (ascii ''work_id''))"

definition row_pair :: "(str \<Rightarrow> int option) \<Rightarrow> row \<Rightarrow> (int \<times> int) option" where
  "row_pair to_int r =
     (case (r (ascii ''date_not_before''), r (ascii ''date_not_after'')) of
        (Some (Some b), Some (Some a)) \<Rightarrow>
          (case (to_int b, to_int a) of
             (Some nb, Some na) \<Rightarrow> Some (nb, na)
           | _ \<Rightarrow> None)
      | _ \<Rightarrow> None)"

text \<open>
  An occurrence, in the words of the claims about matching: \<open>needle\<close> occurs in
  \<open>hay\<close> at offset \<open>i\<close> when the \<open>length needle\<close> characters of \<open>hay\<close> from
  \<open>i\<close> on are \<open>needle\<close>.
\<close>

definition occurs_at :: "'a list \<Rightarrow> 'a list \<Rightarrow> nat \<Rightarrow> bool" where
  "occurs_at needle hay i \<longleftrightarrow>
     i + length needle \<le> length hay \<and> take (length needle) (drop i hay) = needle"

text \<open>
  A work whose text contains an occurrence of a variant, in the words of the claim about
  the scan: the file of the book exists and one of its lines, without its line feed,
  has a non-empty variant as a substring.
\<close>

definition work_has_occurrence :: "files \<Rightarrow> str list \<Rightarrow> Book \<Rightarrow> bool" where
  "work_has_occurrence fs variants b \<longleftrightarrow>
     (case fs (Book.path b) of
        None \<Rightarrow> False
      | Some lns \<Rightarrow>
          (\<exists>raw \<in> set lns. \<exists>t \<in> set variants. t \<noteq> [] \<and> sublist t (rstrip_nl raw)))"

text \<open>
  The line as \<open>render_snippet\<close> shows it, in the words of the claim about snippets:
  every tab replaced by one space, then trailing whitespace removed.
\<close>

definition untab :: "str \<Rightarrow> str" where
  "untab s = map (\<lambda>c. if c = 9 then 32 else c) s"

definition shown_line :: "str \<Rightarrow> str" where
  "shown_line ln = rstrip (untab ln)"

section \<open>Sample data\<close>

text \<open>Two evidence records of one work: an author with both years, and a person of
  another role with a birth year only.\<close>

definition sample_author :: PersonEvidence where
  "sample_author =
     \<lparr> PersonEvidence.work_id = ascii ''KR1a0001'', person_name = [29579, 24380],
       function_s = [25776], PersonEvidence.dynasty_label = [39759],
       raw_dates = ascii ''226-249'',
       PersonEvidence.date_not_before = Some 226,
       PersonEvidence.date_not_after = Some 249 \<rparr>"

definition sample_patron :: PersonEvidence where
  "sample_patron =
     \<lparr> PersonEvidence.work_id = ascii ''KR1a0001'', person_name = [38867, 24247],
       function_s = [24207], PersonEvidence.dynasty_label = [26185],
       raw_dates = ascii ''b. 300'',
       PersonEvidence.date_not_before = Some 300,
       PersonEvidence.date_not_after = None \<rparr>"

text \<open>A book whose author label carries a bracketed note, a book without an author,
  and two persons: one with both years of life, one with floruit years only.\<close>

definition sample_book :: ScanBook where
  "sample_book =
     \<lparr> collection = ascii ''KR1'', ScanBook.work_id = ascii ''KR1a0001'',
       ScanBook.title = [21608, 26131], ScanBook.dynasty_label = [21069, 28450],
       ScanBook.author_label = [29579, 24380, 65288, 27880, 65289],
       filename = ascii ''KR1a0001.txt'', ScanBook.path = ascii ''KR1a0001.txt'' \<rparr>"

definition sample_anonymous_book :: ScanBook where
  "sample_anonymous_book =
     \<lparr> collection = ascii ''KR1'', ScanBook.work_id = ascii ''KR1a0001'',
       ScanBook.title = [21608, 26131], ScanBook.dynasty_label = [21069, 28450],
       ScanBook.author_label = [],
       filename = ascii ''KR1a0001.txt'', ScanBook.path = ascii ''KR1a0001.txt'' \<rparr>"

definition sample_person :: CBDBPerson where
  "sample_person =
     \<lparr> person_id = ascii ''1762'', name = [29579, 24380],
       birth_year = Some 226, death_year = Some 249,
       fl_earliest = None, fl_latest = None \<rparr>"

definition sample_floruit_person :: CBDBPerson where
  "sample_floruit_person =
     \<lparr> person_id = ascii ''1763'', name = [29579, 24380],
       birth_year = Some 226, death_year = None,
       fl_earliest = Some 240, fl_latest = Some 248 \<rparr>"

text \<open>An evidence record with neither bound.\<close>

definition sample_undated :: PersonEvidence where
  "sample_undated =
     \<lparr> PersonEvidence.work_id = ascii ''KR1a0001'', person_name = [29579, 24380],
       function_s = [25776], PersonEvidence.dynasty_label = [39759],
       raw_dates = ascii ''?'',
       PersonEvidence.date_not_before = None,
       PersonEvidence.date_not_after = None \<rparr>"

text \<open>Two rows of books.csv, and a date table that knows the first work only, with a
  year beyond the sentinel.\<close>

definition sample_row_w1 :: row where
  "sample_row_w1 = [ascii ''work_id'' \<mapsto> Some (ascii ''W1''),
                    ascii ''path'' \<mapsto> Some (ascii ''a.txt'')]"

definition sample_row_w2 :: row where
  "sample_row_w2 = [ascii ''work_id'' \<mapsto> Some (ascii ''W2''),
                    ascii ''path'' \<mapsto> Some (ascii ''b.txt'')]"

definition sample_far_ranges :: "str \<rightharpoonup> int \<times> int" where
  "sample_far_ranges = [ascii ''W1'' \<mapsto> (2000000000, 2000000000)]"

definition sample_early_ranges :: "str \<rightharpoonup> int \<times> int" where
  "sample_early_ranges = [ascii ''W2'' \<mapsto> (- 200, - 150)]"

text \<open>Three books of the catalog: dated -200 to -150, dated 100 to 200, and undated.\<close>

definition sample_early_book :: Book where
  "sample_early_book =
     \<lparr> Book.work_id = ascii ''W2'', Book.title = [], Book.dynasty_label = [],
       Book.author_label = [], rel_path = ascii ''b.txt'',
       Book.path = Path [ascii ''data'', ascii ''b.txt''],
       Book.date_not_before = Some (- 200), Book.date_not_after = Some (- 150) \<rparr>"

definition sample_late_book :: Book where
  "sample_late_book =
     \<lparr> Book.work_id = ascii ''W3'', Book.title = [], Book.dynasty_label = [],
       Book.author_label = [], rel_path = ascii ''c.txt'',
       Book.path = Path [ascii ''data'', ascii ''c.txt''],
       Book.date_not_before = Some 100, Book.date_not_after = Some 200 \<rparr>"

definition sample_undated_book :: Book where
  "sample_undated_book =
     \<lparr> Book.work_id = ascii ''W1'', Book.title = [], Book.dynasty_label = [],
       Book.author_label = [], rel_path = ascii ''a.txt'',
       Book.path = Path [ascii ''data'', ascii ''a.txt''],
       Book.date_not_before = None, Book.date_not_after = None \<rparr>"

definition sample_undated_copy :: Book where
  "sample_undated_copy =
     \<lparr> Book.work_id = ascii ''W1'', Book.title = [], Book.dynasty_label = [],
       Book.author_label = [], rel_path = ascii ''z.txt'',
       Book.path = Path [ascii ''data'', ascii ''z.txt''],
       Book.date_not_before = None, Book.date_not_after = None \<rparr>"

text \<open>A date-range table: three rows for W1 (one with a field that is no integer), a
  row with a blank work identifier, and a row for W2 with a missing cell.\<close>

definition sample_to_int :: "str \<Rightarrow> int option" where
  "sample_to_int = map_of [(ascii ''1'', 1), (ascii ''3'', 3), (ascii ''4'', 4),
                           (ascii ''5'', 5), (ascii ''7'', 7), (ascii ''9'', 9)]"

definition date_row :: "str \<Rightarrow> str option \<Rightarrow> str option \<Rightarrow> row" where
  "date_row w b a = [ascii ''work_id'' \<mapsto> Some w, ascii ''date_not_before'' \<mapsto> b,
                     ascii ''date_not_after'' \<mapsto> a]"

definition sample_date_rows :: "row list" where
  "sample_date_rows =
     [date_row (ascii ''W1'') (Some (ascii ''5'')) (Some (ascii ''9'')),
      date_row (ascii ''W1'') (Some (ascii ''3'')) (Some (ascii ''x'')),
      date_row (ascii ''W1 '') (Some (ascii ''3'')) (Some (ascii ''7'')),
      date_row (ascii '' '') (Some (ascii ''1'')) (Some (ascii ''1'')),
      date_row (ascii ''W2'') None (Some (ascii ''4''))]"

text \<open>A query for "ab" with limit 2, the same query with a blank term and with limit
  0, and three worlds: one without any data directory, one whose tables are empty, and
  one with the book W1 whose text holds the term. In each, a path prints as its segments
  joined by slashes.\<close>

definition sample_args :: args where
  "sample_args =
     \<lparr> term_arg = ascii '' ab'', limit = 2, context_arg = 30,
       data_dir = Some (ascii ''data''), dedup = True \<rparr>"

definition sample_blank_args :: args where
  "sample_blank_args =
     \<lparr> term_arg = ascii ''  '', limit = 2, context_arg = 30,
       data_dir = Some (ascii ''data''), dedup = True \<rparr>"

definition sample_zero_args :: args where
  "sample_zero_args =
     \<lparr> term_arg = ascii '' ab'', limit = 0, context_arg = 30,
       data_dir = Some (ascii ''data''), dedup = True \<rparr>"

fun slash_joined :: "path \<Rightarrow> str" where
  "slash_joined (Path segs) = intercalate [47] segs"

definition sample_world_missing :: world where
  "sample_world_missing =
     \<lparr> fs_exists = (\<lambda>p. False), cwd = Path [ascii ''home''],
       package_root = Path [ascii ''pkg''], path_text = slash_joined,
       csv_rows = (\<lambda>p. Inl (FileNotFoundError (slash_joined p))),
       text_files = (\<lambda>p. None), s2t = (\<lambda>t. t), t2s = (\<lambda>t. t),
       to_int_py = sample_to_int, prog = ascii ''kratt'',
       usage = ascii ''usage: kratt term'' \<rparr>"

definition sample_world_empty :: world where
  "sample_world_empty =
     \<lparr> fs_exists = (\<lambda>p. True), cwd = Path [ascii ''home''],
       package_root = Path [ascii ''pkg''], path_text = slash_joined,
       csv_rows = (\<lambda>p. Inr []),
       text_files = (\<lambda>p. None), s2t = (\<lambda>t. t), t2s = (\<lambda>t. t),
       to_int_py = sample_to_int, prog = ascii ''kratt'',
       usage = ascii ''usage: kratt term'' \<rparr>"

definition sample_world :: world where
  "sample_world =
     \<lparr> fs_exists = (\<lambda>p. True), cwd = Path [ascii ''home''],
       package_root = Path [ascii ''pkg''], path_text = slash_joined,
       csv_rows = (\<lambda>p. if p = Path [ascii ''data'', ascii ''books.csv'']
                         then Inr [sample_row_w1, sample_row_w2] else Inr []),
       text_files = (\<lambda>p. if p = Path [ascii ''data'', ascii ''a.txt'']
                           then Some [ascii ''xxab'' @ [10]] else None),
       s2t = (\<lambda>t. t), t2s = (\<lambda>t. t),
       to_int_py = sample_to_int, prog = ascii ''kratt'',
       usage = ascii ''usage: kratt term'' \<rparr>"

text \<open>Text files for the book W1 and for its second copy, both holding the term.\<close>

definition sample_files :: files where
  "sample_files =
     (\<lambda>p. if p = Path [ascii ''data'', ascii ''a.txt''] then Some [ascii ''xxab'' @ [10]]
          else if p = Path [ascii ''data'', ascii ''z.txt''] then Some [ascii ''ab'' @ [10]]
          else None)"

text \<open>A line with a tab and trailing blanks: "s", tab, "ab now", two spaces.\<close>

definition sample_line :: str where
  "sample_line = [115, 9] @ ascii ''ab now  ''"

section \<open>Facts about the Python values\<close>

lemma ascii_simps [simp]: "ascii [] = []" "ascii (c # cs) = of_char c # ascii cs"
  by (simp_all add: ascii_def)

section \<open>The order of the catalog\<close>

lemma sorted_positions:
  fixes ks :: "('k :: linorder) list"
  assumes "sorted ks" "i < length ks" "j < length ks" "ks ! i < ks ! j"
  shows "i < j"
proof (rule ccontr)
  assume "\<not> i < j"
  then have "j \<le> i" by simp
  then have "ks ! j \<le> ks ! i"
    using assms(1,2) by (simp add: sorted_iff_nth_mono)
  with assms(4) show False by simp
qed

lemma strip_plain:
  "strip (ascii ''W1'') = ascii ''W1''" "strip (ascii ''W2'') = ascii ''W2''"
  "strip (ascii ''a.txt'') = ascii ''a.txt''" "strip (ascii ''b.txt'') = ascii ''b.txt''"
  "strip [] = []"
  by (simp_all add: strip_def lstrip_def rstrip_def is_space_def)

lemma sample_rows_loaded:
  "load_books_rows (Path [ascii ''data'']) rg [sample_row_w1, sample_row_w2]
     = [\<lparr> Book.work_id = ascii ''W1'', title = [], dynasty_label = [], author_label = [],
           rel_path = ascii ''a.txt'', path = Path [ascii ''data'', ascii ''a.txt''],
           date_not_before = map_option fst (rg (ascii ''W1'')),
           date_not_after = map_option snd (rg (ascii ''W1'')) \<rparr>,
        \<lparr> Book.work_id = ascii ''W2'', title = [], dynasty_label = [], author_label = [],
           rel_path = ascii ''b.txt'', path = Path [ascii ''data'', ascii ''b.txt''],
           date_not_before = map_option fst (rg (ascii ''W2'')),
           date_not_after = map_option snd (rg (ascii ''W2'')) \<rparr>]"
proof -
  have cells:
    "row_get_or_empty sample_row_w1 (ascii ''path'') = ascii ''a.txt''"
    "row_get_or_empty sample_row_w1 (ascii ''work_id'') = ascii ''W1''"
    "row_get_or_empty sample_row_w1 (ascii ''title'') = []"
    "row_get_or_empty sample_row_w1 (ascii ''dynasty_label'') = []"
    "row_get_or_empty sample_row_w1 (ascii ''author_label'') = []"
    "row_get_or_empty sample_row_w2 (ascii ''path'') = ascii ''b.txt''"
    "row_get_or_empty sample_row_w2 (ascii ''work_id'') = ascii ''W2''"
    "row_get_or_empty sample_row_w2 (ascii ''title'') = []"
    "row_get_or_empty sample_row_w2 (ascii ''dynasty_label'') = []"
    "row_get_or_empty sample_row_w2 (ascii ''author_label'') = []"
    by (simp_all add: sample_row_w1_def sample_row_w2_def row_get_or_empty_def)
  have nonempty: "ascii ''a.txt'' \<noteq> []" "ascii ''b.txt'' \<noteq> []"
    by simp_all
  show ?thesis
    by (simp only: load_books_rows.simps cells strip_plain Let_def nonempty if_False
          path_div.simps append.simps)
qed

text \<open>
  C1, as the code has it. \<open>load_books\<close> returns the loaded books rearranged into
  ascending order of \<open>book_sort_key\<close>: a book with a smaller key stands before a book
  with a larger one. For two books with both bounds known the key order is the
  lexicographic order of the two date pairs, ties broken by work identifier and then by
  relative path. A book with an absent bound comes after every book whose known pair is
  below the sentinel pair (10^9, 10^9). Two books with an absent bound are ordered by
  work identifier, then relative path.
\<close>

theorem load_books_order:
  fixes a b :: Book and a1 a2 b1 b2 :: int
  shows
  "mset (load_books dd ranges rows) = mset (load_books_rows dd ranges rows)
   \<and> sorted (map book_sort_key (load_books dd ranges rows))
   \<and> (\<forall>i j. i < length (load_books dd ranges rows)
           \<and> j < length (load_books dd ranges rows)
           \<and> book_sort_key (load_books dd ranges rows ! i)
               < book_sort_key (load_books dd ranges rows ! j)
          \<longrightarrow> i < j)
   \<and> (Book.date_not_before a = Some a1 \<and> Book.date_not_after a = Some a2
       \<and> Book.date_not_before b = Some b1 \<and> Book.date_not_after b = Some b2
       \<longrightarrow> (book_sort_key a < book_sort_key b \<longleftrightarrow>
              (a1, a2) < (b1, b2)
              \<or> (a1, a2) = (b1, b2)
                 \<and> (Book.work_id a, Book.rel_path a) < (Book.work_id b, Book.rel_path b)))
   \<and> (Book.date_not_before a = Some a1 \<and> Book.date_not_after a = Some a2
       \<and> (a1, a2) < (10 ^ 9, 10 ^ 9)
       \<and> (Book.date_not_before b = None \<or> Book.date_not_after b = None)
       \<longrightarrow> book_sort_key a < book_sort_key b)
   \<and> ((Book.date_not_before a = None \<or> Book.date_not_after a = None)
       \<and> (Book.date_not_before b = None \<or> Book.date_not_after b = None)
       \<longrightarrow> (book_sort_key a < book_sort_key b \<longleftrightarrow>
              (Book.work_id a, Book.rel_path a) < (Book.work_id b, Book.rel_path b)))"
proof (intro conjI)
  show "mset (load_books dd ranges rows) = mset (load_books_rows dd ranges rows)"
    by (simp add: load_books_def)
  show s: "sorted (map book_sort_key (load_books dd ranges rows))"
    by (simp add: load_books_def)
  show "\<forall>i j. i < length (load_books dd ranges rows)
           \<and> j < length (load_books dd ranges rows)
           \<and> book_sort_key (load_books dd ranges rows ! i)
               < book_sort_key (load_books dd ranges rows ! j)
          \<longrightarrow> i < j"
    using sorted_positions [OF s] by auto
  show "Book.date_not_before a = Some a1 \<and> Book.date_not_after a = Some a2
       \<and> Book.date_not_before b = Some b1 \<and> Book.date_not_after b = Some b2
       \<longrightarrow> (book_sort_key a < book_sort_key b \<longleftrightarrow>
              (a1, a2) < (b1, b2)
              \<or> (a1, a2) = (b1, b2)
                 \<and> (Book.work_id a, Book.rel_path a) < (Book.work_id b, Book.rel_path b))"
    by (auto simp: book_sort_key_def less_prod_def)
  show "Book.date_not_before a = Some a1 \<and> Book.date_not_after a = Some a2
       \<and> (a1, a2) < (10 ^ 9, 10 ^ 9)
       \<and> (Book.date_not_before b = None \<or> Book.date_not_after b = None)
       \<longrightarrow> book_sort_key a < book_sort_key b"
    by (auto simp: book_sort_key_def less_prod_def UNKNOWN_DATE_KEY_def)
  show "(Book.date_not_before a = None \<or> Book.date_not_after a = None)
       \<and> (Book.date_not_before b = None \<or> Book.date_not_after b = None)
       \<longrightarrow> (book_sort_key a < book_sort_key b \<longleftrightarrow>
              (Book.work_id a, Book.rel_path a) < (Book.work_id b, Book.rel_path b))"
    by (auto simp: book_sort_key_def less_prod_def UNKNOWN_DATE_KEY_def)
qed

theorem load_books_order_witness:
  "load_books (Path [ascii ''data'']) sample_early_ranges [sample_row_w1, sample_row_w2]
     = [sample_early_book, sample_undated_book]
   \<and> book_sort_key sample_early_book < book_sort_key sample_late_book
   \<and> book_sort_key sample_late_book < book_sort_key sample_undated_book
   \<and> book_sort_key sample_undated_book < book_sort_key sample_undated_copy"
proof -
  let ?out = "load_books (Path [ascii ''data'']) sample_early_ranges
                [sample_row_w1, sample_row_w2]"
  have dates: "sample_early_ranges (ascii ''W1'') = None"
    "sample_early_ranges (ascii ''W2'') = Some (- 200, - 150)"
    by (simp_all add: sample_early_ranges_def)
  have loaded: "load_books_rows (Path [ascii ''data'']) sample_early_ranges
                  [sample_row_w1, sample_row_w2]
                = [sample_undated_book, sample_early_book]"
    unfolding sample_rows_loaded dates
    by (simp add: sample_undated_book_def sample_early_book_def)
  have early_late:
    "Book.date_not_before sample_early_book = Some (- 200)
     \<and> Book.date_not_after sample_early_book = Some (- 150)
     \<and> Book.date_not_before sample_late_book = Some 100
     \<and> Book.date_not_after sample_late_book = Some 200"
    by (simp add: sample_early_book_def sample_late_book_def)
  have late_undated:
    "Book.date_not_before sample_late_book = Some 100
     \<and> Book.date_not_after sample_late_book = Some 200
     \<and> ((100, 200) :: int \<times> int) < (10 ^ 9, 10 ^ 9)
     \<and> (Book.date_not_before sample_undated_book = None
         \<or> Book.date_not_after sample_undated_book = None)"
    by (simp add: sample_late_book_def sample_undated_book_def less_prod_def)
  have undated:
    "(Book.date_not_before sample_undated_book = None
        \<or> Book.date_not_after sample_undated_book = None)
     \<and> (Book.date_not_before sample_undated_copy = None
         \<or> Book.date_not_after sample_undated_copy = None)"
    by (simp add: sample_undated_book_def sample_undated_copy_def)
  have k1: "book_sort_key sample_early_book < book_sort_key sample_late_book"
    using load_books_order [where a = sample_early_book and b = sample_late_book
            and ?a1.0 = "- 200" and ?a2.0 = "- 150" and ?b1.0 = 100 and ?b2.0 = 200]
          early_late
    by (simp add: less_prod_def)
  have k2: "book_sort_key sample_late_book < book_sort_key sample_undated_book"
    using load_books_order [where a = sample_late_book and b = sample_undated_book
            and ?a1.0 = 100 and ?a2.0 = 200]
          late_undated
    by blast
  have k3: "book_sort_key sample_undated_book < book_sort_key sample_undated_copy"
    using load_books_order [where a = sample_undated_book and b = sample_undated_copy]
          undated
    by (simp add: sample_undated_book_def sample_undated_copy_def less_prod_def)
  have "?out = [sample_early_book, sample_undated_book]"
    unfolding load_books_def loaded
    by (simp add: book_sort_key_def sample_early_book_def sample_undated_book_def
          UNKNOWN_DATE_KEY_def less_eq_prod_def)
  with k1 k2 k3 show ?thesis by simp
qed

text \<open>
  C1 as stated fails for a known pair beyond the sentinel: the undated book W2 is
  placed before the book W1 dated to the year 2000000000.
\<close>

theorem load_books_sentinel_counterexample:
  "map Book.work_id
       (load_books (Path [ascii ''data'']) sample_far_ranges [sample_row_w1, sample_row_w2])
     = [ascii ''W2'', ascii ''W1'']
   \<and> map Book.date_not_before
       (load_books (Path [ascii ''data'']) sample_far_ranges [sample_row_w1, sample_row_w2])
     = [None, Some 2000000000]
   \<and> map Book.date_not_after
       (load_books (Path [ascii ''data'']) sample_far_ranges [sample_row_w1, sample_row_w2])
     = [None, Some 2000000000]"
proof -
  have dates: "sample_far_ranges (ascii ''W1'') = Some (2000000000, 2000000000)"
    "sample_far_ranges (ascii ''W2'') = None"
    by (simp_all add: sample_far_ranges_def)
  show ?thesis
    unfolding load_books_def sample_rows_loaded dates
    by (simp add: book_sort_key_def UNKNOWN_DATE_KEY_def less_eq_prod_def)
qed

section \<open>Catalog evidence\<close>

lemma evidence_score_nonneg: "0 \<le> evidence_score e"
  by (simp add: evidence_score_def)

lemma choose_best_loop_keep:
  "\<forall>e \<in> set ev. evidence_score e \<le> bs \<Longrightarrow> choose_best_loop ev best bs = best"
  by (induction ev arbitrary: best bs) (auto simp: Let_def)

lemma choose_best_loop_first_max:
  "\<exists>e \<in> set ev. bs < evidence_score e \<Longrightarrow>
   \<exists>i < length ev.
      choose_best_loop ev best bs = Some (ev ! i)
      \<and> bs < evidence_score (ev ! i)
      \<and> (\<forall>j < length ev. evidence_score (ev ! j) \<le> evidence_score (ev ! i))
      \<and> (\<forall>j < i. evidence_score (ev ! j) < evidence_score (ev ! i))"
proof (induction ev arbitrary: best bs)
  case Nil
  then show ?case by simp
next
  case (Cons item rest)
  show ?case
  proof (cases "bs < evidence_score item")
    case True
    show ?thesis
    proof (cases "\<exists>e \<in> set rest. evidence_score item < evidence_score e")
      case False
      then have all: "\<forall>e \<in> set rest. evidence_score e \<le> evidence_score item"
        by (simp add: not_less)
      then have "choose_best_loop (item # rest) best bs = Some item"
        using True by (simp add: choose_best_loop_keep)
      moreover have "\<forall>j < length (item # rest).
          evidence_score ((item # rest) ! j) \<le> evidence_score item"
        using all by (auto simp: nth_Cons split: nat.splits)
      ultimately show ?thesis using True
        by (intro exI [of _ 0]) simp
    next
      case ex: True
      from Cons.IH [OF ex, of "Some item"] obtain i where i: "i < length rest"
        "choose_best_loop rest (Some item) (evidence_score item) = Some (rest ! i)"
        "evidence_score item < evidence_score (rest ! i)"
        "\<forall>j < length rest. evidence_score (rest ! j) \<le> evidence_score (rest ! i)"
        "\<forall>j < i. evidence_score (rest ! j) < evidence_score (rest ! i)"
        by blast
      have "choose_best_loop (item # rest) best bs = Some ((item # rest) ! Suc i)"
        using True i(2) by simp
      moreover have "bs < evidence_score ((item # rest) ! Suc i)"
        using True i(3) by simp
      moreover have "\<forall>j < length (item # rest).
          evidence_score ((item # rest) ! j) \<le> evidence_score ((item # rest) ! Suc i)"
        using i(3,4) by (auto simp: nth_Cons split: nat.splits)
      moreover have "\<forall>j < Suc i.
          evidence_score ((item # rest) ! j) < evidence_score ((item # rest) ! Suc i)"
        using i(3,5) by (auto simp: nth_Cons split: nat.splits)
      ultimately show ?thesis using i(1)
        by (intro exI [of _ "Suc i"]) simp
    qed
  next
    case False
    then have ex: "\<exists>e \<in> set rest. bs < evidence_score e"
      using Cons.prems by auto
    from Cons.IH [OF ex, of best] obtain i where i: "i < length rest"
      "choose_best_loop rest best bs = Some (rest ! i)"
      "bs < evidence_score (rest ! i)"
      "\<forall>j < length rest. evidence_score (rest ! j) \<le> evidence_score (rest ! i)"
      "\<forall>j < i. evidence_score (rest ! j) < evidence_score (rest ! i)"
      by blast
    have "choose_best_loop (item # rest) best bs = Some ((item # rest) ! Suc i)"
      using False i(2) by simp
    moreover have "bs < evidence_score ((item # rest) ! Suc i)"
      using i(3) by simp
    moreover have "\<forall>j < length (item # rest).
        evidence_score ((item # rest) ! j) \<le> evidence_score ((item # rest) ! Suc i)"
      using False i(3,4) by (auto simp: nth_Cons split: nat.splits)
    moreover have "\<forall>j < Suc i.
        evidence_score ((item # rest) ! j) < evidence_score ((item # rest) ! Suc i)"
      using False i(3,5) by (auto simp: nth_Cons split: nat.splits)
    ultimately show ?thesis using i(1)
      by (intro exI [of _ "Suc i"]) simp
  qed
qed

text \<open>
  C4. \<open>choose_best_evidence\<close> returns nothing for an empty list; for a non-empty list
  it returns the record at the first position whose score is the largest of the list.
  The score is 2 for both bounds, 1 for exactly one bound, plus 1 for a role in
  \<open>PREFERRED_FUNCTIONS\<close>; so a record with both bounds and such a role scores more than
  a record with one bound and another role, and wins in either order.
\<close>

theorem choose_best_evidence_first_of_max:
  fixes evidence :: "PersonEvidence list" and a b :: PersonEvidence
  shows
  "choose_best_evidence [] = None
   \<and> (evidence \<noteq> [] \<longrightarrow>
        (\<exists>i < length evidence.
           choose_best_evidence evidence = Some (evidence ! i)
           \<and> (\<forall>j < length evidence.
                 evidence_score (evidence ! j) \<le> evidence_score (evidence ! i))
           \<and> (\<forall>j < i. evidence_score (evidence ! j) < evidence_score (evidence ! i))))
   \<and> evidence_score a =
        (if PersonEvidence.date_not_before a \<noteq> None \<and> PersonEvidence.date_not_after a \<noteq> None
         then 2
         else if PersonEvidence.date_not_before a \<noteq> None \<or> PersonEvidence.date_not_after a \<noteq> None
         then 1 else 0)
        + (if function_s a \<in> set PREFERRED_FUNCTIONS then 1 else 0)
   \<and> (PersonEvidence.date_not_before a \<noteq> None \<and> PersonEvidence.date_not_after a \<noteq> None
        \<and> function_s a \<in> set PREFERRED_FUNCTIONS
        \<and> (PersonEvidence.date_not_before b = None) \<noteq> (PersonEvidence.date_not_after b = None)
        \<and> function_s b \<notin> set PREFERRED_FUNCTIONS \<longrightarrow>
          evidence_score b < evidence_score a
          \<and> choose_best_evidence [a, b] = Some a
          \<and> choose_best_evidence [b, a] = Some a)"
proof (intro conjI impI)
  show "choose_best_evidence [] = None"
    by (simp add: choose_best_evidence_def)
next
  assume "evidence \<noteq> []"
  then obtain e where "e \<in> set evidence" by (cases evidence) auto
  moreover have "- 1 < evidence_score e"
    using evidence_score_nonneg [of e] by linarith
  ultimately have "\<exists>e \<in> set evidence. - 1 < evidence_score e"
    by blast
  from choose_best_loop_first_max [OF this, of None]
  show "\<exists>i < length evidence.
           choose_best_evidence evidence = Some (evidence ! i)
           \<and> (\<forall>j < length evidence.
                 evidence_score (evidence ! j) \<le> evidence_score (evidence ! i))
           \<and> (\<forall>j < i. evidence_score (evidence ! j) < evidence_score (evidence ! i))"
    unfolding choose_best_evidence_def by blast
next
  show "evidence_score a =
        (if PersonEvidence.date_not_before a \<noteq> None \<and> PersonEvidence.date_not_after a \<noteq> None
         then 2
         else if PersonEvidence.date_not_before a \<noteq> None \<or> PersonEvidence.date_not_after a \<noteq> None
         then 1 else 0)
        + (if function_s a \<in> set PREFERRED_FUNCTIONS then 1 else 0)"
    by (simp add: evidence_score_def)
next
  assume h: "PersonEvidence.date_not_before a \<noteq> None \<and> PersonEvidence.date_not_after a \<noteq> None
        \<and> function_s a \<in> set PREFERRED_FUNCTIONS
        \<and> (PersonEvidence.date_not_before b = None) \<noteq> (PersonEvidence.date_not_after b = None)
        \<and> function_s b \<notin> set PREFERRED_FUNCTIONS"
  then have sa: "evidence_score a = 3" and sb: "evidence_score b = 1"
    by (auto simp: evidence_score_def)
  then show "evidence_score b < evidence_score a" by simp
  show "choose_best_evidence [a, b] = Some a"
    using sa sb by (simp add: choose_best_evidence_def)
  show "choose_best_evidence [b, a] = Some a"
    using sa sb by (simp add: choose_best_evidence_def)
qed

theorem choose_best_evidence_first_of_max_witness:
  "[sample_patron, sample_author] \<noteq> []
   \<and> evidence_score sample_patron < evidence_score sample_author
   \<and> choose_best_evidence [sample_author, sample_patron] = Some sample_author
   \<and> choose_best_evidence [sample_patron, sample_author] = Some sample_author
   \<and> (\<exists>i < length [sample_patron, sample_author].
         choose_best_evidence [sample_patron, sample_author]
           = Some ([sample_patron, sample_author] ! i))"
  using choose_best_evidence_first_of_max
          [of "[sample_patron, sample_author]" sample_author sample_patron]
  by (auto simp: sample_author_def sample_patron_def PREFERRED_FUNCTIONS_def)
section \<open>The biographical tier\<close>

lemma choose_cbdb_person_Some: "choose_cbdb_person ps = Some p \<longleftrightarrow> ps = [p]"
  by (cases ps rule: choose_cbdb_person.cases) auto

lemma cbdb_tier_Some_iff:
  "cbdb_tier b cbdb_people = Some r \<longleftrightarrow>
     (\<exists>author p. normalize_author_name (ScanBook.author_label b) = Some author
        \<and> cbdb_people author = Some [p]
        \<and> fst (cbdb_date_range p) \<noteq> None \<and> fst (snd (cbdb_date_range p)) \<noteq> None
        \<and> r = \<lparr> work_id = ScanBook.work_id b,
                  source = ascii ''cbdb'',
                  date_not_before = fst (cbdb_date_range p),
                  date_not_after = fst (snd (cbdb_date_range p)),
                  date_type = snd (snd (cbdb_date_range p)),
                  confidence = ascii ''medium'',
                  note_s = ascii ''name='' @ name p @ ascii '' id='' @ person_id p,
                  ref = ascii ''CBDB_20240208_DATA2'' \<rparr>)"
  unfolding cbdb_tier_def
  by (auto simp: choose_cbdb_person_Some Let_def
           split: option.splits prod.splits if_splits)

text \<open>
  C3. The biographical tier writes a row exactly when the normalized author name has
  one candidate, and that candidate has both years of life or both floruit years. With
  no candidate or with several the tier writes nothing. For the one candidate the row
  is tagged cbdb and holds birth and death year with date type author_lifespan_bound
  when both are present, else the two floruit years with date type floruit_bound when
  both are present. Where the tier writes nothing the row is the catalog tier's, or
  the dynasty fallback's when that abstains too.
\<close>

theorem cbdb_tier_unique_candidate:
  fixes b :: ScanBook and cbdb_people :: "str \<rightharpoonup> CBDBPerson list"
  shows
  "(cbdb_tier b cbdb_people \<noteq> None \<longleftrightarrow>
      (\<exists>author p. normalize_author_name (ScanBook.author_label b) = Some author
         \<and> (case cbdb_people author of None \<Rightarrow> [] | Some ps \<Rightarrow> ps) = [p]
         \<and> (birth_year p \<noteq> None \<and> death_year p \<noteq> None
              \<or> fl_earliest p \<noteq> None \<and> fl_latest p \<noteq> None)))
   \<and> (\<forall>author. normalize_author_name (ScanBook.author_label b) = Some author
         \<and> length (case cbdb_people author of None \<Rightarrow> [] | Some ps \<Rightarrow> ps) \<noteq> 1
         \<longrightarrow> cbdb_tier b cbdb_people = None)
   \<and> (\<forall>author p. normalize_author_name (ScanBook.author_label b) = Some author
         \<and> (case cbdb_people author of None \<Rightarrow> [] | Some ps \<Rightarrow> ps) = [p]
         \<and> birth_year p \<noteq> None \<and> death_year p \<noteq> None
         \<longrightarrow> (\<exists>r. cbdb_tier b cbdb_people = Some r
                \<and> publication_date_row b ranges kr_evidence cbdb_people = r
                \<and> source r = ascii ''cbdb''
                \<and> DateRow.date_not_before r = birth_year p
                \<and> DateRow.date_not_after r = death_year p
                \<and> date_type r = ascii ''author_lifespan_bound''))
   \<and> (\<forall>author p. normalize_author_name (ScanBook.author_label b) = Some author
         \<and> (case cbdb_people author of None \<Rightarrow> [] | Some ps \<Rightarrow> ps) = [p]
         \<and> \<not> (birth_year p \<noteq> None \<and> death_year p \<noteq> None)
         \<and> fl_earliest p \<noteq> None \<and> fl_latest p \<noteq> None
         \<longrightarrow> (\<exists>r. cbdb_tier b cbdb_people = Some r
                \<and> publication_date_row b ranges kr_evidence cbdb_people = r
                \<and> source r = ascii ''cbdb''
                \<and> DateRow.date_not_before r = fl_earliest p
                \<and> DateRow.date_not_after r = fl_latest p
                \<and> date_type r = ascii ''floruit_bound''))
   \<and> (cbdb_tier b cbdb_people = None \<longrightarrow>
        publication_date_row b ranges kr_evidence cbdb_people
          = (case catalog_tier b kr_evidence of
               Some r \<Rightarrow> r | None \<Rightarrow> dynasty_tier b ranges))"
proof -
  have one: "(case cbdb_people author of None \<Rightarrow> [] | Some ps \<Rightarrow> ps) = [p]
               \<longleftrightarrow> cbdb_people author = Some [p]" for author p
    by (auto split: option.splits)
  have c1: "cbdb_tier b cbdb_people \<noteq> None \<longleftrightarrow>
      (\<exists>author p. normalize_author_name (ScanBook.author_label b) = Some author
         \<and> (case cbdb_people author of None \<Rightarrow> [] | Some ps \<Rightarrow> ps) = [p]
         \<and> (birth_year p \<noteq> None \<and> death_year p \<noteq> None
              \<or> fl_earliest p \<noteq> None \<and> fl_latest p \<noteq> None))"
    unfolding one
  proof
    assume "cbdb_tier b cbdb_people \<noteq> None"
    then obtain r where "cbdb_tier b cbdb_people = Some r" by blast
    then show "\<exists>author p. normalize_author_name (ScanBook.author_label b) = Some author
         \<and> cbdb_people author = Some [p]
         \<and> (birth_year p \<noteq> None \<and> death_year p \<noteq> None
              \<or> fl_earliest p \<noteq> None \<and> fl_latest p \<noteq> None)"
      unfolding cbdb_tier_Some_iff
      by (auto simp: cbdb_date_range_def split: if_splits)
  next
    assume "\<exists>author p. normalize_author_name (ScanBook.author_label b) = Some author
         \<and> cbdb_people author = Some [p]
         \<and> (birth_year p \<noteq> None \<and> death_year p \<noteq> None
              \<or> fl_earliest p \<noteq> None \<and> fl_latest p \<noteq> None)"
    then obtain author p where h:
      "normalize_author_name (ScanBook.author_label b) = Some author"
      "cbdb_people author = Some [p]"
      "birth_year p \<noteq> None \<and> death_year p \<noteq> None
         \<or> fl_earliest p \<noteq> None \<and> fl_latest p \<noteq> None"
      by blast
    then have "fst (cbdb_date_range p) \<noteq> None \<and> fst (snd (cbdb_date_range p)) \<noteq> None"
      by (auto simp: cbdb_date_range_def)
    with h(1,2) have "\<exists>r. cbdb_tier b cbdb_people = Some r"
      unfolding cbdb_tier_Some_iff by blast
    then show "cbdb_tier b cbdb_people \<noteq> None" by auto
  qed
  have c2: "\<forall>author. normalize_author_name (ScanBook.author_label b) = Some author
         \<and> length (case cbdb_people author of None \<Rightarrow> [] | Some ps \<Rightarrow> ps) \<noteq> 1
         \<longrightarrow> cbdb_tier b cbdb_people = None"
  proof (intro allI impI)
    fix author
    assume h: "normalize_author_name (ScanBook.author_label b) = Some author
         \<and> length (case cbdb_people author of None \<Rightarrow> [] | Some ps \<Rightarrow> ps) \<noteq> 1"
    show "cbdb_tier b cbdb_people = None"
    proof (rule ccontr)
      assume "cbdb_tier b cbdb_people \<noteq> None"
      then obtain r where "cbdb_tier b cbdb_people = Some r" by blast
      then obtain p where "cbdb_people author = Some [p]"
        unfolding cbdb_tier_Some_iff using h by auto
      then show False using h by simp
    qed
  qed
  have c3: "\<forall>author p. normalize_author_name (ScanBook.author_label b) = Some author
         \<and> (case cbdb_people author of None \<Rightarrow> [] | Some ps \<Rightarrow> ps) = [p]
         \<and> birth_year p \<noteq> None \<and> death_year p \<noteq> None
         \<longrightarrow> (\<exists>r. cbdb_tier b cbdb_people = Some r
                \<and> publication_date_row b ranges kr_evidence cbdb_people = r
                \<and> source r = ascii ''cbdb''
                \<and> DateRow.date_not_before r = birth_year p
                \<and> DateRow.date_not_after r = death_year p
                \<and> date_type r = ascii ''author_lifespan_bound'')"
    unfolding one
  proof (intro allI impI, elim conjE)
    fix author p
    assume h: "normalize_author_name (ScanBook.author_label b) = Some author"
      "cbdb_people author = Some [p]" "birth_year p \<noteq> None" "death_year p \<noteq> None"
    then have d: "cbdb_date_range p = (birth_year p, death_year p, ascii ''author_lifespan_bound'')"
      by (simp add: cbdb_date_range_def)
    let ?r = "\<lparr> work_id = ScanBook.work_id b,
                  source = ascii ''cbdb'',
                  date_not_before = fst (cbdb_date_range p),
                  date_not_after = fst (snd (cbdb_date_range p)),
                  date_type = snd (snd (cbdb_date_range p)),
                  confidence = ascii ''medium'',
                  note_s = ascii ''name='' @ name p @ ascii '' id='' @ person_id p,
                  ref = ascii ''CBDB_20240208_DATA2'' \<rparr>"
    have t: "cbdb_tier b cbdb_people = Some ?r"
      unfolding cbdb_tier_Some_iff using h d by auto
    then have "publication_date_row b ranges kr_evidence cbdb_people = ?r"
      by (simp add: publication_date_row_def)
    with t d show "\<exists>r. cbdb_tier b cbdb_people = Some r
                \<and> publication_date_row b ranges kr_evidence cbdb_people = r
                \<and> source r = ascii ''cbdb''
                \<and> DateRow.date_not_before r = birth_year p
                \<and> DateRow.date_not_after r = death_year p
                \<and> date_type r = ascii ''author_lifespan_bound''"
      by simp
  qed
  have c4: "\<forall>author p. normalize_author_name (ScanBook.author_label b) = Some author
         \<and> (case cbdb_people author of None \<Rightarrow> [] | Some ps \<Rightarrow> ps) = [p]
         \<and> \<not> (birth_year p \<noteq> None \<and> death_year p \<noteq> None)
         \<and> fl_earliest p \<noteq> None \<and> fl_latest p \<noteq> None
         \<longrightarrow> (\<exists>r. cbdb_tier b cbdb_people = Some r
                \<and> publication_date_row b ranges kr_evidence cbdb_people = r
                \<and> source r = ascii ''cbdb''
                \<and> DateRow.date_not_before r = fl_earliest p
                \<and> DateRow.date_not_after r = fl_latest p
                \<and> date_type r = ascii ''floruit_bound'')"
    unfolding one
  proof (intro allI impI, elim conjE)
    fix author p
    assume h: "normalize_author_name (ScanBook.author_label b) = Some author"
      "cbdb_people author = Some [p]" "\<not> (birth_year p \<noteq> None \<and> death_year p \<noteq> None)"
      "fl_earliest p \<noteq> None" "fl_latest p \<noteq> None"
    then have d: "cbdb_date_range p = (fl_earliest p, fl_latest p, ascii ''floruit_bound'')"
      by (simp add: cbdb_date_range_def)
    let ?r = "\<lparr> work_id = ScanBook.work_id b,
                  source = ascii ''cbdb'',
                  date_not_before = fst (cbdb_date_range p),
                  date_not_after = fst (snd (cbdb_date_range p)),
                  date_type = snd (snd (cbdb_date_range p)),
                  confidence = ascii ''medium'',
                  note_s = ascii ''name='' @ name p @ ascii '' id='' @ person_id p,
                  ref = ascii ''CBDB_20240208_DATA2'' \<rparr>"
    have t: "cbdb_tier b cbdb_people = Some ?r"
      unfolding cbdb_tier_Some_iff using h d by auto
    then have "publication_date_row b ranges kr_evidence cbdb_people = ?r"
      by (simp add: publication_date_row_def)
    with t d show "\<exists>r. cbdb_tier b cbdb_people = Some r
                \<and> publication_date_row b ranges kr_evidence cbdb_people = r
                \<and> source r = ascii ''cbdb''
                \<and> DateRow.date_not_before r = fl_earliest p
                \<and> DateRow.date_not_after r = fl_latest p
                \<and> date_type r = ascii ''floruit_bound''"
      by simp
  qed
  have c5: "cbdb_tier b cbdb_people = None \<longrightarrow>
        publication_date_row b ranges kr_evidence cbdb_people
          = (case catalog_tier b kr_evidence of
               Some r \<Rightarrow> r | None \<Rightarrow> dynasty_tier b ranges)"
    by (simp add: publication_date_row_def)
  from c1 c2 c3 c4 c5 show ?thesis by blast
qed

lemma sample_book_author:
  "normalize_author_name (ScanBook.author_label sample_book) = Some [29579, 24380]"
  by (simp add: normalize_author_name_def sample_book_def strip_def lstrip_def rstrip_def
        is_space_def is_open_paren_def is_close_paren_def UNKNOWN_AUTHOR_MARKERS_def
        str_contains_def)

theorem cbdb_tier_unique_candidate_witness:
  "cbdb_tier sample_book [[29579, 24380] \<mapsto> [sample_person]] \<noteq> None
   \<and> date_type (publication_date_row sample_book Map.empty Map.empty
                   [[29579, 24380] \<mapsto> [sample_person]])
       = ascii ''author_lifespan_bound''
   \<and> date_type (publication_date_row sample_book Map.empty Map.empty
                   [[29579, 24380] \<mapsto> [sample_floruit_person]])
       = ascii ''floruit_bound''
   \<and> cbdb_tier sample_book [[29579, 24380] \<mapsto> [sample_person, sample_floruit_person]]
       = None
   \<and> publication_date_row sample_book Map.empty Map.empty
        [[29579, 24380] \<mapsto> [sample_person, sample_floruit_person]]
       = dynasty_tier sample_book Map.empty"
proof -
  have lifespan: "birth_year sample_person \<noteq> None \<and> death_year sample_person \<noteq> None"
    by (simp add: sample_person_def)
  have floruit: "\<not> (birth_year sample_floruit_person \<noteq> None
                     \<and> death_year sample_floruit_person \<noteq> None)
                 \<and> fl_earliest sample_floruit_person \<noteq> None
                 \<and> fl_latest sample_floruit_person \<noteq> None"
    by (simp add: sample_floruit_person_def)
  have no_evidence: "catalog_tier sample_book Map.empty = None"
    by (simp add: catalog_tier_def)
  show ?thesis
    using cbdb_tier_unique_candidate
            [where b = sample_book and ranges = Map.empty and kr_evidence = Map.empty
               and cbdb_people = "[[29579, 24380] \<mapsto> [sample_person]]"]
          cbdb_tier_unique_candidate
            [where b = sample_book and ranges = Map.empty and kr_evidence = Map.empty
               and cbdb_people = "[[29579, 24380] \<mapsto> [sample_floruit_person]]"]
          cbdb_tier_unique_candidate
            [where b = sample_book and ranges = Map.empty and kr_evidence = Map.empty
               and cbdb_people = "[[29579, 24380] \<mapsto> [sample_person, sample_floruit_person]]"]
          sample_book_author lifespan floruit no_evidence
    by auto
qed
section \<open>The catalog tier and the fallback\<close>

lemma choose_best_evidence_nonempty:
  "evidence \<noteq> [] \<Longrightarrow> \<exists>e \<in> set evidence. choose_best_evidence evidence = Some e"
proof -
  assume ne: "evidence \<noteq> []"
  then obtain e where "e \<in> set evidence" by (cases evidence) auto
  moreover have "- 1 < evidence_score e"
    using evidence_score_nonneg [of e] by linarith
  ultimately have "\<exists>e \<in> set evidence. - 1 < evidence_score e" by blast
  from choose_best_loop_first_max [OF this, of None]
  show ?thesis unfolding choose_best_evidence_def by force
qed

lemma sample_anonymous_book_author:
  "normalize_author_name (ScanBook.author_label sample_anonymous_book) = None"
  by (simp add: normalize_author_name_def sample_anonymous_book_def strip_def lstrip_def
        rstrip_def)

text \<open>
  C5, as the code has it. For a work on which the biographical tier writes nothing: if
  the work has no evidence record, the catalog tier writes nothing either and the row
  is the dynasty fallback's, tagged filename_dynasty and not kr_catalog; if the work
  has an evidence record, the row is tagged kr_catalog and carries the bounds of the
  chosen record, present or not. A record with neither bound is kept out earlier: the
  catalog parser's \<open>flush_person\<close> appends a record only when a bound was read.
\<close>

theorem catalog_tier_abstains_without_evidence:
  fixes b :: ScanBook and kr_evidence :: "str \<rightharpoonup> PersonEvidence list"
  shows
  "(cbdb_tier b cbdb_people = None
      \<and> (case kr_evidence (ScanBook.work_id b) of None \<Rightarrow> [] | Some es \<Rightarrow> es) = []
    \<longrightarrow> catalog_tier b kr_evidence = None
        \<and> publication_date_row b ranges kr_evidence cbdb_people = dynasty_tier b ranges
        \<and> source (publication_date_row b ranges kr_evidence cbdb_people)
            = ascii ''filename_dynasty''
        \<and> source (publication_date_row b ranges kr_evidence cbdb_people)
            \<noteq> ascii ''kr_catalog'')
   \<and> (cbdb_tier b cbdb_people = None
      \<and> (case kr_evidence (ScanBook.work_id b) of None \<Rightarrow> [] | Some es \<Rightarrow> es) \<noteq> []
    \<longrightarrow> (\<exists>e. choose_best_evidence
                 (case kr_evidence (ScanBook.work_id b) of None \<Rightarrow> [] | Some es \<Rightarrow> es)
               = Some e
             \<and> source (publication_date_row b ranges kr_evidence cbdb_people)
                 = ascii ''kr_catalog''
             \<and> DateRow.date_not_before (publication_date_row b ranges kr_evidence cbdb_people)
                 = PersonEvidence.date_not_before e
             \<and> DateRow.date_not_after (publication_date_row b ranges kr_evidence cbdb_people)
                 = PersonEvidence.date_not_after e))
   \<and> (flush_person parse_dates current_work_id current_person current_props = Some ev
    \<longrightarrow> PersonEvidence.date_not_before ev \<noteq> None
        \<or> PersonEvidence.date_not_after ev \<noteq> None)"
proof (intro conjI impI)
  assume h: "cbdb_tier b cbdb_people = None
      \<and> (case kr_evidence (ScanBook.work_id b) of None \<Rightarrow> [] | Some es \<Rightarrow> es) = []"
  then show c: "catalog_tier b kr_evidence = None"
    by (simp add: catalog_tier_def)
  with h show r: "publication_date_row b ranges kr_evidence cbdb_people = dynasty_tier b ranges"
    by (simp add: publication_date_row_def)
  show "source (publication_date_row b ranges kr_evidence cbdb_people)
            = ascii ''filename_dynasty''"
    unfolding r by (simp add: dynasty_tier_def split: prod.splits)
  show "source (publication_date_row b ranges kr_evidence cbdb_people)
            \<noteq> ascii ''kr_catalog''"
    unfolding r by (simp add: dynasty_tier_def split: prod.splits)
next
  assume h: "cbdb_tier b cbdb_people = None
      \<and> (case kr_evidence (ScanBook.work_id b) of None \<Rightarrow> [] | Some es \<Rightarrow> es) \<noteq> []"
  let ?evidence = "case kr_evidence (ScanBook.work_id b) of None \<Rightarrow> [] | Some es \<Rightarrow> es"
  from h choose_best_evidence_nonempty [of ?evidence]
  obtain e where e: "choose_best_evidence ?evidence = Some e" by blast
  have "publication_date_row b ranges kr_evidence cbdb_people
          = the (catalog_tier b kr_evidence)"
    using h e by (simp add: publication_date_row_def catalog_tier_def)
  then have "source (publication_date_row b ranges kr_evidence cbdb_people)
                 = ascii ''kr_catalog''
             \<and> DateRow.date_not_before (publication_date_row b ranges kr_evidence cbdb_people)
                 = PersonEvidence.date_not_before e
             \<and> DateRow.date_not_after (publication_date_row b ranges kr_evidence cbdb_people)
                 = PersonEvidence.date_not_after e"
    using h e by (simp add: catalog_tier_def)
  with e show "\<exists>e. choose_best_evidence ?evidence = Some e
             \<and> source (publication_date_row b ranges kr_evidence cbdb_people)
                 = ascii ''kr_catalog''
             \<and> DateRow.date_not_before (publication_date_row b ranges kr_evidence cbdb_people)
                 = PersonEvidence.date_not_before e
             \<and> DateRow.date_not_after (publication_date_row b ranges kr_evidence cbdb_people)
                 = PersonEvidence.date_not_after e"
    by blast
next
  assume "flush_person parse_dates current_work_id current_person current_props = Some ev"
  then show "PersonEvidence.date_not_before ev \<noteq> None
        \<or> PersonEvidence.date_not_after ev \<noteq> None"
    by (auto simp: flush_person_def Let_def split: if_splits prod.splits)
qed

theorem catalog_tier_abstains_without_evidence_witness:
  "source (publication_date_row sample_anonymous_book Map.empty Map.empty Map.empty)
     = ascii ''filename_dynasty''
   \<and> source (publication_date_row sample_anonymous_book Map.empty
               [ascii ''KR1a0001'' \<mapsto> [sample_patron]] Map.empty)
     = ascii ''kr_catalog''
   \<and> flush_person (\<lambda>raw. (Some 300, None)) (Some (ascii ''KR1a0001''))
        (Some [38867, 24247]) [ascii ''DATES'' \<mapsto> ascii ''b. 300''] \<noteq> None
   \<and> PersonEvidence.date_not_before
        (the (flush_person (\<lambda>raw. (Some 300, None)) (Some (ascii ''KR1a0001''))
               (Some [38867, 24247]) [ascii ''DATES'' \<mapsto> ascii ''b. 300''])) \<noteq> None"
proof -
  have tier: "cbdb_tier sample_anonymous_book Map.empty = None"
    by (simp add: cbdb_tier_def sample_anonymous_book_author)
  have wid: "ScanBook.work_id sample_anonymous_book = ascii ''KR1a0001''"
    by (simp add: sample_anonymous_book_def)
  let ?flushed = "flush_person (\<lambda>raw. (Some 300, None)) (Some (ascii ''KR1a0001''))
        (Some [38867, 24247]) [ascii ''DATES'' \<mapsto> ascii ''b. 300'']"
  let ?ev = "\<lparr> PersonEvidence.work_id = ascii ''KR1a0001'', person_name = [38867, 24247],
                function_s = [], PersonEvidence.dynasty_label = [],
                raw_dates = ascii ''b. 300'',
                PersonEvidence.date_not_before = Some (300::int),
                PersonEvidence.date_not_after = None \<rparr>"
  have flushed: "?flushed = Some ?ev"
    by (simp add: flush_person_def strip_def lstrip_def rstrip_def is_space_def)
  note none = catalog_tier_abstains_without_evidence
            [where b = sample_anonymous_book and cbdb_people = Map.empty
               and kr_evidence = Map.empty and ranges = Map.empty
               and parse_dates = "\<lambda>raw. (Some 300, None)"
               and current_work_id = "Some (ascii ''KR1a0001'')"
               and current_person = "Some [38867, 24247]"
               and current_props = "[ascii ''DATES'' \<mapsto> ascii ''b. 300'']"
               and ev = ?ev]
  note some = catalog_tier_abstains_without_evidence
            [where b = sample_anonymous_book and cbdb_people = Map.empty
               and kr_evidence = "[ascii ''KR1a0001'' \<mapsto> [sample_patron]]"
               and ranges = Map.empty
               and parse_dates = "\<lambda>raw. (Some 300, None)"
               and current_work_id = "Some (ascii ''KR1a0001'')"
               and current_person = "Some [38867, 24247]"
               and current_props = "[ascii ''DATES'' \<mapsto> ascii ''b. 300'']"
               and ev = ?ev]
  have hyp_a: "cbdb_tier sample_anonymous_book Map.empty = None
      \<and> (case (Map.empty :: str \<rightharpoonup> PersonEvidence list)
                 (ScanBook.work_id sample_anonymous_book)
          of None \<Rightarrow> [] | Some es \<Rightarrow> es) = []"
    using tier by simp
  have a: "source (publication_date_row sample_anonymous_book Map.empty Map.empty Map.empty)
     = ascii ''filename_dynasty''"
    using none hyp_a by blast
  have hyp_b: "cbdb_tier sample_anonymous_book Map.empty = None
      \<and> (case [ascii ''KR1a0001'' \<mapsto> [sample_patron]]
                 (ScanBook.work_id sample_anonymous_book)
          of None \<Rightarrow> [] | Some es \<Rightarrow> es) \<noteq> []"
    using tier wid by simp
  have b: "source (publication_date_row sample_anonymous_book Map.empty
               [ascii ''KR1a0001'' \<mapsto> [sample_patron]] Map.empty)
     = ascii ''kr_catalog''"
    using some hyp_b by blast
  have c: "PersonEvidence.date_not_before ?ev \<noteq> None \<or> PersonEvidence.date_not_after ?ev \<noteq> None"
    using none flushed by blast
  from a b c flushed show ?thesis by simp
qed

text \<open>
  C5 as stated fails where the tier is handed a record with neither bound: the record
  is chosen and the row is tagged kr_catalog.
\<close>

theorem catalog_tier_undated_counterexample:
  "choose_best_evidence [sample_undated] = Some sample_undated
   \<and> PersonEvidence.date_not_before sample_undated = None
   \<and> PersonEvidence.date_not_after sample_undated = None
   \<and> source (publication_date_row sample_anonymous_book Map.empty
               [ascii ''KR1a0001'' \<mapsto> [sample_undated]] Map.empty)
       = ascii ''kr_catalog''"
proof -
  have tier: "cbdb_tier sample_anonymous_book Map.empty = None"
    by (simp add: cbdb_tier_def sample_anonymous_book_author)
  have wid: "ScanBook.work_id sample_anonymous_book = ascii ''KR1a0001''"
    by (simp add: sample_anonymous_book_def)
  have chosen: "choose_best_evidence [sample_undated] = Some sample_undated"
    by (simp add: choose_best_evidence_def evidence_score_def)
  have "source (publication_date_row sample_anonymous_book Map.empty
               [ascii ''KR1a0001'' \<mapsto> [sample_undated]] Map.empty)
       = ascii ''kr_catalog''"
    by (simp add: publication_date_row_def catalog_tier_def tier wid chosen)
  with chosen show ?thesis
    by (simp add: sample_undated_def)
qed

section \<open>The dynasty fallback\<close>

text \<open>No canonical label is itself an alias, and no alias or canonical label is empty.\<close>

lemma alias_values_canonical:
  assumes "DYNASTY_ALIASES label = Some canon"
  shows "DYNASTY_ALIASES canon = None \<and> canon \<noteq> [] \<and> canon \<noteq> label \<and> label \<noteq> []"
proof -
  have "(label, canon) \<in> set
     [([21069, 28450], [35199, 28450]),
      ([24460, 28450], [26481, 28450]),
      ([34560, 28450], [34560]),
      ([26481, 21555], [21555]),
      ([23403, 21555], [21555]),
      ([21335, 26397, 23435], [21129, 23435]),
      ([23435, 40, 21335, 26397, 41], [21129, 23435::nat])]"
    using assms unfolding DYNASTY_ALIASES_def by (rule map_of_SomeD)
  then have "(label = [21069, 28450] \<and> canon = [35199, 28450])
      \<or> (label = [24460, 28450] \<and> canon = [26481, 28450])
      \<or> (label = [34560, 28450] \<and> canon = [34560])
      \<or> (label = [26481, 21555] \<and> canon = [21555])
      \<or> (label = [23403, 21555] \<and> canon = [21555])
      \<or> (label = [21335, 26397, 23435] \<and> canon = [21129, 23435])
      \<or> (label = [23435, 40, 21335, 26397, 41] \<and> canon = [21129, 23435])"
    by simp
  then show ?thesis
    by (elim disjE conjE) (simp_all add: DYNASTY_ALIASES_def)
qed

text \<open>
  C6. \<open>resolve_dynasty_range\<close>: an empty label gives an absent interval with the note
  "missing dynasty label"; a label whose normal form (its alias target if it has one,
  else itself) is not in the range table gives an absent interval with a note naming
  the label; a label with an alias whose target is in the table gives the interval of
  the target, which is the interval the target itself resolves to, with a note naming
  both labels; a label in the table without an alias gives the table's interval with a
  note naming it.
\<close>

theorem resolve_dynasty_range_cases:
  fixes label canon :: str and ranges :: "str \<rightharpoonup> int \<times> int" and nb na :: int
  shows
  "resolve_dynasty_range [] ranges = (None, None, ascii ''missing dynasty label'')
   \<and> (label \<noteq> [] \<and> DYNASTY_ALIASES label = None \<and> ranges label = None \<longrightarrow>
        resolve_dynasty_range label ranges
          = (None, None, ascii ''unmapped dynasty label='' @ label))
   \<and> (DYNASTY_ALIASES label = Some canon \<and> ranges canon = None \<longrightarrow>
        resolve_dynasty_range label ranges
          = (None, None, ascii ''unmapped dynasty label='' @ label))
   \<and> (DYNASTY_ALIASES label = Some canon \<and> ranges canon = Some (nb, na) \<longrightarrow>
        resolve_dynasty_range label ranges
          = (Some nb, Some na,
             ascii ''dynasty_label='' @ label @ ascii '' alias='' @ canon)
        \<and> resolve_dynasty_range canon ranges
          = (Some nb, Some na, ascii ''dynasty_label='' @ canon))
   \<and> (label \<noteq> [] \<and> DYNASTY_ALIASES label = None \<and> ranges label = Some (nb, na) \<longrightarrow>
        resolve_dynasty_range label ranges
          = (Some nb, Some na, ascii ''dynasty_label='' @ label))"
  using alias_values_canonical [of label canon]
  by (auto simp: resolve_dynasty_range_def)

theorem resolve_dynasty_range_cases_witness:
  "resolve_dynasty_range [21069, 28450] [[35199, 28450] \<mapsto> (- 206, 8)]
     = (Some (- 206), Some 8,
        ascii ''dynasty_label='' @ [21069, 28450] @ ascii '' alias='' @ [35199, 28450])
   \<and> resolve_dynasty_range [35199, 28450] [[35199, 28450] \<mapsto> (- 206, 8)]
     = (Some (- 206), Some 8, ascii ''dynasty_label='' @ [35199, 28450])
   \<and> resolve_dynasty_range [21069, 28450] Map.empty
     = (None, None, ascii ''unmapped dynasty label='' @ [21069, 28450])
   \<and> resolve_dynasty_range [88] Map.empty
     = (None, None, ascii ''unmapped dynasty label='' @ [88])"
proof -
  have al: "DYNASTY_ALIASES [21069, 28450] = Some [35199, 28450]"
    by (simp add: DYNASTY_ALIASES_def)
  have plain: "DYNASTY_ALIASES [35199, 28450] = None" "DYNASTY_ALIASES [88] = None"
    by (simp_all add: DYNASTY_ALIASES_def)
  show ?thesis
    using resolve_dynasty_range_cases
            [of "[[35199, 28450] \<mapsto> (- 206, 8)]" "[21069, 28450]" "[35199, 28450]" "- 206" 8]
          resolve_dynasty_range_cases
            [of "[[35199, 28450] \<mapsto> (- 206, 8)]" "[35199, 28450]" "[]" "- 206" 8]
          resolve_dynasty_range_cases [of Map.empty "[21069, 28450]" "[35199, 28450]" 0 0]
          resolve_dynasty_range_cases [of Map.empty "[88]" "[]" 0 0]
          al plain
    by simp
qed
section \<open>Loading the date ranges\<close>

lemma date_row_candidate_Some:
  "date_row_candidate to_int r = Inr (Some (w, nb, na)) \<longleftrightarrow>
     w = strip (row_get_or_empty r (ascii ''work_id'')) \<and> w \<noteq> []
     \<and> (\<exists>b a. r (ascii ''date_not_before'') = Some (Some b) \<and> to_int b = Some nb
              \<and> r (ascii ''date_not_after'') = Some (Some a) \<and> to_int a = Some na)"
  unfolding date_row_candidate_def Let_def
  by (auto split: option.splits simp del: ascii_simps)

lemma date_row_candidate_no_error:
  "r (ascii ''date_not_before'') \<noteq> None \<Longrightarrow> r (ascii ''date_not_after'') \<noteq> None
     \<Longrightarrow> date_row_candidate to_int r \<noteq> Inl e"
  unfolding date_row_candidate_def Let_def
  by (auto split: option.splits simp del: ascii_simps)

lemma date_row_candidate_skip:
  "date_row_candidate to_int r = Inr None \<longleftrightarrow>
     strip (row_get_or_empty r (ascii ''work_id'')) = []
     \<or> r (ascii ''date_not_before'') = Some None
     \<or> (\<exists>b. r (ascii ''date_not_before'') = Some (Some b) \<and> to_int b = None)
     \<or> (\<exists>b nb. r (ascii ''date_not_before'') = Some (Some b) \<and> to_int b = Some nb
           \<and> (r (ascii ''date_not_after'') = Some None
               \<or> (\<exists>a. r (ascii ''date_not_after'') = Some (Some a) \<and> to_int a = None)))"
  unfolding date_row_candidate_def Let_def
  by (auto split: option.splits simp del: ascii_simps)

lemma load_date_ranges_loop_spec:
  assumes "\<forall>r \<in> set rows. \<forall>e. date_row_candidate to_int r \<noteq> Inl e"
  shows "\<exists>m. load_date_ranges_loop to_int rows m0 = Inr m
           \<and> (\<forall>w. (m w = None \<longleftrightarrow>
                     m0 w = None
                     \<and> (\<forall>r \<in> set rows. \<forall>p. date_row_candidate to_int r \<noteq> Inr (Some (w, p))))
                  \<and> (\<forall>p. m w = Some p \<longrightarrow>
                        (m0 w = Some p
                         \<or> (\<exists>r \<in> set rows. date_row_candidate to_int r = Inr (Some (w, p))))
                        \<and> (\<forall>q. m0 w = Some q \<longrightarrow> p \<le> q)
                        \<and> (\<forall>r \<in> set rows. \<forall>q.
                              date_row_candidate to_int r = Inr (Some (w, q)) \<longrightarrow> p \<le> q)))"
  using assms
proof (induction rows arbitrary: m0)
  case Nil
  then show ?case by auto
next
  case (Cons r rows)
  have rest: "\<forall>r \<in> set rows. \<forall>e. date_row_candidate to_int r \<noteq> Inl e"
    using Cons.prems by simp
  consider (skip) "date_row_candidate to_int r = Inr None"
    | (cand) w0 c where "date_row_candidate to_int r = Inr (Some (w0, c))"
    using Cons.prems by (cases "date_row_candidate to_int r") (auto, metis option.exhaust surj_pair)
  then show ?case
  proof cases
    case skip
    from Cons.IH [OF rest, of m0] obtain m where m:
      "load_date_ranges_loop to_int rows m0 = Inr m"
      "\<forall>w. (m w = None \<longleftrightarrow>
                     m0 w = None
                     \<and> (\<forall>r \<in> set rows. \<forall>p. date_row_candidate to_int r \<noteq> Inr (Some (w, p))))
                  \<and> (\<forall>p. m w = Some p \<longrightarrow>
                        (m0 w = Some p
                         \<or> (\<exists>r \<in> set rows. date_row_candidate to_int r = Inr (Some (w, p))))
                        \<and> (\<forall>q. m0 w = Some q \<longrightarrow> p \<le> q)
                        \<and> (\<forall>r \<in> set rows. \<forall>q.
                              date_row_candidate to_int r = Inr (Some (w, q)) \<longrightarrow> p \<le> q))"
      by blast
    have "load_date_ranges_loop to_int (r # rows) m0 = Inr m"
      using skip m(1) by simp
    moreover have "\<forall>w. (m w = None \<longleftrightarrow>
                     m0 w = None
                     \<and> (\<forall>r' \<in> set (r # rows). \<forall>p.
                            date_row_candidate to_int r' \<noteq> Inr (Some (w, p))))
                  \<and> (\<forall>p. m w = Some p \<longrightarrow>
                        (m0 w = Some p
                         \<or> (\<exists>r' \<in> set (r # rows).
                               date_row_candidate to_int r' = Inr (Some (w, p))))
                        \<and> (\<forall>q. m0 w = Some q \<longrightarrow> p \<le> q)
                        \<and> (\<forall>r' \<in> set (r # rows). \<forall>q.
                              date_row_candidate to_int r' = Inr (Some (w, q)) \<longrightarrow> p \<le> q))"
      using m(2) skip by auto
    ultimately show ?thesis by blast
  next
    case cand
    define m1 where "m1 =
      (case m0 w0 of None \<Rightarrow> m0(w0 \<mapsto> c)
       | Some current \<Rightarrow> if c < current then m0(w0 \<mapsto> c) else m0)"
    have step: "load_date_ranges_loop to_int (r # rows) m0
                  = load_date_ranges_loop to_int rows m1"
      using cand by (simp add: m1_def split: option.splits)
    have m1_other: "\<And>w. w \<noteq> w0 \<Longrightarrow> m1 w = m0 w"
      by (auto simp: m1_def split: option.splits)
    have m1_w0: "\<exists>p. m1 w0 = Some p \<and> p \<le> c \<and> (p = c \<or> m0 w0 = Some p)
                   \<and> (\<forall>q. m0 w0 = Some q \<longrightarrow> p \<le> q)"
    proof (cases "m0 w0")
      case None
      then have "m1 w0 = Some c" by (simp add: m1_def)
      with None show ?thesis by (intro exI [of _ c]) simp
    next
      case (Some current)
      show ?thesis
      proof (cases "c < current")
        case True
        then have "m1 w0 = Some c" using Some by (simp add: m1_def)
        with Some True show ?thesis by (intro exI [of _ c]) (simp add: less_imp_le)
      next
        case False
        then have "m1 w0 = Some current"
          using Some by (simp add: m1_def)
        moreover have "current \<le> c"
          using False by (simp add: not_less)
        ultimately have "m1 w0 = Some current" "current \<le> c"
          by simp_all
        with Some False show ?thesis by (intro exI [of _ current]) simp
      qed
    qed
    from Cons.IH [OF rest, of m1] obtain m where m:
      "load_date_ranges_loop to_int rows m1 = Inr m"
      and spec: "\<And>w. (m w = None \<longleftrightarrow>
                     m1 w = None
                     \<and> (\<forall>r \<in> set rows. \<forall>p. date_row_candidate to_int r \<noteq> Inr (Some (w, p))))
                  \<and> (\<forall>p. m w = Some p \<longrightarrow>
                        (m1 w = Some p
                         \<or> (\<exists>r \<in> set rows. date_row_candidate to_int r = Inr (Some (w, p))))
                        \<and> (\<forall>q. m1 w = Some q \<longrightarrow> p \<le> q)
                        \<and> (\<forall>r \<in> set rows. \<forall>q.
                              date_row_candidate to_int r = Inr (Some (w, q)) \<longrightarrow> p \<le> q))"
      by blast
    have "(m w = None \<longleftrightarrow>
                     m0 w = None
                     \<and> (\<forall>r' \<in> set (r # rows). \<forall>p.
                            date_row_candidate to_int r' \<noteq> Inr (Some (w, p))))
                  \<and> (\<forall>p. m w = Some p \<longrightarrow>
                        (m0 w = Some p
                         \<or> (\<exists>r' \<in> set (r # rows).
                               date_row_candidate to_int r' = Inr (Some (w, p))))
                        \<and> (\<forall>q. m0 w = Some q \<longrightarrow> p \<le> q)
                        \<and> (\<forall>r' \<in> set (r # rows). \<forall>q.
                              date_row_candidate to_int r' = Inr (Some (w, q)) \<longrightarrow> p \<le> q))"
      for w
    proof (cases "w = w0")
      case False
      then show ?thesis
        using spec [of w] m1_other [of w] cand by auto
    next
      case True
      from m1_w0 obtain p1 where p1: "m1 w0 = Some p1" "p1 \<le> c"
        "p1 = c \<or> m0 w0 = Some p1" "\<forall>q. m0 w0 = Some q \<longrightarrow> p1 \<le> q"
        by blast
      from spec [of w0] p1(1) obtain p where p: "m w0 = Some p" "p \<le> p1"
        "m1 w0 = Some p \<or> (\<exists>r \<in> set rows. date_row_candidate to_int r = Inr (Some (w0, p)))"
        "\<forall>r \<in> set rows. \<forall>q. date_row_candidate to_int r = Inr (Some (w0, q)) \<longrightarrow> p \<le> q"
        by (cases "m w0") auto
      have a: "m0 w0 = Some p
                 \<or> (\<exists>r' \<in> set (r # rows). date_row_candidate to_int r' = Inr (Some (w0, p)))"
        using p(3) p1(1,3) cand by auto
      have b: "\<forall>q. m0 w0 = Some q \<longrightarrow> p \<le> q"
        using p(2) p1(4) by (meson order_trans)
      have c: "\<forall>r' \<in> set (r # rows). \<forall>q.
                 date_row_candidate to_int r' = Inr (Some (w0, q)) \<longrightarrow> p \<le> q"
        using p(2,4) p1(2) cand by auto
      show ?thesis
        unfolding True using p(1) a b c cand by auto
    qed
    with step m show ?thesis by auto
  qed
qed


lemma date_row_candidate_row_pair:
  "date_row_candidate to_int r = Inr (Some (w, p)) \<longleftrightarrow>
     row_work_id r = w \<and> w \<noteq> [] \<and> row_pair to_int r = Some p"
proof (cases p)
  case (Pair nb na)
  show ?thesis
    unfolding Pair date_row_candidate_Some row_work_id_def row_pair_def
    by (auto split: option.splits simp del: ascii_simps)
qed

lemma sample_date_rows_read:
  "map row_work_id sample_date_rows
     = [ascii ''W1'', ascii ''W1'', ascii ''W1'', [], ascii ''W2'']"
  "map (row_pair sample_to_int) sample_date_rows
     = [Some (5, 9), None, Some (3, 7), Some (1, 1), None]"
  by (simp_all add: sample_date_rows_def date_row_def row_work_id_def row_pair_def
        row_get_or_empty_def sample_to_int_def strip_def lstrip_def rstrip_def is_space_def)

text \<open>
  C10, as the code has it. For a date-range table whose header has the two date columns,
  so that every row has both keys, \<open>load_date_ranges\<close> returns a dict, and for every
  work identifier \<open>w\<close>: \<open>w\<close> is absent from the dict exactly when it is blank or no
  row with that identifier has two integer date fields (rows with a blank identifier, a
  missing cell or a field that is no integer add nothing); and the pair kept for \<open>w\<close>
  is the pair of one of its rows and is lexicographically at most the pair of each of
  its rows.
\<close>

theorem load_date_ranges_smallest_pair:
  assumes "\<forall>r \<in> set rows. r (ascii ''date_not_before'') \<noteq> None
                          \<and> r (ascii ''date_not_after'') \<noteq> None"
  shows "\<exists>m. load_date_ranges to_int rows = Inr m
           \<and> (\<forall>w. (m w = None \<longleftrightarrow>
                      w = [] \<or> (\<forall>r \<in> set rows. row_work_id r = w \<longrightarrow> row_pair to_int r = None))
                  \<and> (\<forall>p. m w = Some p \<longrightarrow>
                        w \<noteq> []
                        \<and> (\<exists>r \<in> set rows. row_work_id r = w \<and> row_pair to_int r = Some p)
                        \<and> (\<forall>r \<in> set rows. \<forall>q.
                              row_work_id r = w \<and> row_pair to_int r = Some q \<longrightarrow> p \<le> q)))"
proof -
  have "\<forall>r \<in> set rows. \<forall>e. date_row_candidate to_int r \<noteq> Inl e"
    using assms date_row_candidate_no_error by blast
  from load_date_ranges_loop_spec [OF this, of Map.empty]
  obtain m where m: "load_date_ranges to_int rows = Inr m"
    and spec: "\<And>w. (m w = None \<longleftrightarrow>
                     (\<forall>r \<in> set rows. \<forall>p. date_row_candidate to_int r \<noteq> Inr (Some (w, p))))
                  \<and> (\<forall>p. m w = Some p \<longrightarrow>
                        (\<exists>r \<in> set rows. date_row_candidate to_int r = Inr (Some (w, p)))
                        \<and> (\<forall>r \<in> set rows. \<forall>q.
                              date_row_candidate to_int r = Inr (Some (w, q)) \<longrightarrow> p \<le> q))"
    unfolding load_date_ranges_def by auto
  have "(m w = None \<longleftrightarrow>
            w = [] \<or> (\<forall>r \<in> set rows. row_work_id r = w \<longrightarrow> row_pair to_int r = None))
        \<and> (\<forall>p. m w = Some p \<longrightarrow>
              w \<noteq> []
              \<and> (\<exists>r \<in> set rows. row_work_id r = w \<and> row_pair to_int r = Some p)
              \<and> (\<forall>r \<in> set rows. \<forall>q.
                    row_work_id r = w \<and> row_pair to_int r = Some q \<longrightarrow> p \<le> q))" for w
    using spec [of w] unfolding date_row_candidate_row_pair
    by (cases "w = []") (auto simp del: split_paired_All split_paired_Ex)
  with m show ?thesis by blast
qed


theorem load_date_ranges_smallest_pair_witness:
  "(case load_date_ranges sample_to_int sample_date_rows of
      Inl e \<Rightarrow> False
    | Inr m \<Rightarrow> m (ascii ''W1'') = Some (3, 7) \<and> m (ascii ''W2'') = None \<and> m [] = None)"
proof -
  have keys: "\<forall>r \<in> set sample_date_rows. r (ascii ''date_not_before'') \<noteq> None
                          \<and> r (ascii ''date_not_after'') \<noteq> None"
    by (simp add: sample_date_rows_def date_row_def)
  from load_date_ranges_smallest_pair [OF keys, of sample_to_int]
  obtain m where m: "load_date_ranges sample_to_int sample_date_rows = Inr m"
    and spec: "\<forall>w. (m w = None \<longleftrightarrow>
                      w = [] \<or> (\<forall>r \<in> set sample_date_rows.
                                   row_work_id r = w \<longrightarrow> row_pair sample_to_int r = None))
                  \<and> (\<forall>p. m w = Some p \<longrightarrow>
                        w \<noteq> []
                        \<and> (\<exists>r \<in> set sample_date_rows.
                              row_work_id r = w \<and> row_pair sample_to_int r = Some p)
                        \<and> (\<forall>r \<in> set sample_date_rows. \<forall>q.
                              row_work_id r = w \<and> row_pair sample_to_int r = Some q
                              \<longrightarrow> p \<le> q))"
    by (elim exE conjE)
  have none: "m w = None \<longleftrightarrow>
                 w = [] \<or> (\<forall>r \<in> set sample_date_rows.
                              row_work_id r = w \<longrightarrow> row_pair sample_to_int r = None)" for w
    using spec [rule_format, of w] by (rule conjunct1)
  have some: "(\<exists>r \<in> set sample_date_rows.
                     row_work_id r = w \<and> row_pair sample_to_int r = Some p)
                 \<and> (\<forall>r \<in> set sample_date_rows. \<forall>q.
                       row_work_id r = w \<and> row_pair sample_to_int r = Some q \<longrightarrow> p \<le> q)"
    if "m w = Some p" for w p
    using spec [rule_format, of w] that by (elim conjE) (simp del: split_paired_All)
  obtain r1 r2 r3 r4 r5 where rows: "sample_date_rows = [r1, r2, r3, r4, r5]"
    by (simp add: sample_date_rows_def)
  from sample_date_rows_read [unfolded rows] have
    ids: "row_work_id r1 = ascii ''W1''" "row_work_id r2 = ascii ''W1''"
         "row_work_id r3 = ascii ''W1''" "row_work_id r4 = []" "row_work_id r5 = ascii ''W2''"
    and pairs: "row_pair sample_to_int r1 = Some (5, 9)" "row_pair sample_to_int r2 = None"
         "row_pair sample_to_int r3 = Some (3, 7)" "row_pair sample_to_int r4 = Some (1, 1)"
         "row_pair sample_to_int r5 = None"
    by simp_all
  have w2: "m (ascii ''W2'') = None"
    unfolding none rows using ids pairs by simp
  have blank: "m [] = None"
    unfolding none by simp
  have "m (ascii ''W1'') \<noteq> None"
    unfolding none rows using ids pairs by simp
  then obtain p where p: "m (ascii ''W1'') = Some p" by blast
  from some [OF p, unfolded rows] ids pairs
  have "p = (5, 9) \<or> p = (3, 7)" and "p \<le> (3, 7)"
    by auto
  then have "p = (3, 7)"
    by (auto simp: less_eq_prod_def)
  with p w2 blank m show ?thesis by simp
qed

text \<open>
  C10 as stated fails for a table whose header lacks a date column: the row of W1 has no
  key \<open>date_not_before\<close>, and reading it raises KeyError, which the loop does not
  catch, so nothing is returned.
\<close>

theorem load_date_ranges_missing_column_counterexample:
  "sample_row_w1 (ascii ''date_not_before'') = None
   \<and> row_work_id sample_row_w1 = ascii ''W1''
   \<and> load_date_ranges sample_to_int [sample_row_w1]
       = Inl (KeyError (ascii ''date_not_before''))"
  by (simp add: load_date_ranges_def date_row_candidate_def sample_row_w1_def
        row_work_id_def row_get_or_empty_def strip_def lstrip_def rstrip_def is_space_def)

section \<open>The exit code of main\<close>

lemma sample_term: "strip (term_arg sample_args) = ascii ''ab''"
  by (simp add: sample_args_def strip_def lstrip_def rstrip_def is_space_def)

lemma sample_variants:
  "term_variants sample_world (ascii ''ab'') = [ascii ''ab'']"
  "term_variants sample_world_empty (ascii ''ab'') = [ascii ''ab'']"
  by (simp_all add: term_variants_def sample_world_def sample_world_empty_def strip_def
        lstrip_def rstrip_def is_space_def)

lemma sample_line_matches:
  "iter_line_matches (ascii ''xxab'') [ascii ''ab''] = [(2, ascii ''ab'')]"
  by (simp add: iter_line_matches_def line_find_loop.simps str_find_def)

lemma sample_iter_matches:
  "iter_matches (text_files sample_world) sample_undated_book [ascii ''ab''] (Some 1)
     = [\<lparr> book = sample_undated_book, line_no = 1, offset = 2, term_s = ascii ''ab'',
          line = ascii ''xxab'' \<rparr>]"
proof -
  have "rstrip_nl (ascii ''xxab'' @ [10]) = ascii ''xxab''"
    by (simp add: rstrip_nl_def)
  then show ?thesis
    using sample_line_matches
    by (simp add: iter_matches_def sample_world_def sample_undated_book_def
          del: ascii_simps)
qed


lemma sample_resolve:
  "resolve_data_dir sample_world_missing (data_dir sample_args)
     = Inl (FileNotFoundError (ascii ''books.csv not found in data''))"
  "resolve_data_dir sample_world_empty (data_dir sample_args) = Inr (Path [ascii ''data''])"
  "resolve_data_dir sample_world (data_dir sample_args) = Inr (Path [ascii ''data''])"
  by (simp_all add: resolve_data_dir_def sample_args_def sample_world_missing_def
        sample_world_empty_def sample_world_def)

lemma sample_resolve_blank:
  "resolve_data_dir sample_world (data_dir sample_blank_args) = Inr (Path [ascii ''data''])"
  "resolve_data_dir sample_world_missing (data_dir sample_blank_args)
     = Inl (FileNotFoundError (ascii ''books.csv not found in data''))"
  by (simp_all add: resolve_data_dir_def sample_blank_args_def sample_world_missing_def
        sample_world_def)

lemma sample_blank_term: "strip (term_arg sample_blank_args) = []"
  by (simp add: sample_blank_args_def strip_def lstrip_def rstrip_def is_space_def)

lemma sample_query_empty:
  "run_query sample_world_empty sample_args (Path [ascii ''data'']) (ascii ''ab'')
     = Inr ([ascii ''ab''], [])"
proof -
  have "csv_rows sample_world_empty p = Inr []" for p
    by (simp add: sample_world_empty_def)
  then show ?thesis
    by (simp add: run_query_def load_date_ranges_def load_books_def sample_variants
          del: ascii_simps)
qed

lemma sample_query:
  "run_query sample_world sample_args (Path [ascii ''data'']) (ascii ''ab'')
     = Inr ([ascii ''ab''],
            [\<lparr> book = sample_undated_book, line_no = 1, offset = 2, term_s = ascii ''ab'',
               line = ascii ''xxab'' \<rparr>])"
proof -
  have tables:
    "csv_rows sample_world (path_div (Path [ascii ''data'']) (ascii ''publication_date_range.csv''))
       = Inr []"
    "csv_rows sample_world (path_div (Path [ascii ''data'']) (ascii ''books.csv''))
       = Inr [sample_row_w1, sample_row_w2]"
    by (simp_all add: sample_world_def)
  let ?w2 = "\<lparr> Book.work_id = ascii ''W2'', title = [], dynasty_label = [], author_label = [],
           rel_path = ascii ''b.txt'', path = Path [ascii ''data'', ascii ''b.txt''],
           date_not_before = None, date_not_after = None \<rparr>"
  have loaded: "load_books_rows (Path [ascii ''data'']) Map.empty [sample_row_w1, sample_row_w2]
      = [sample_undated_book, ?w2]"
    unfolding sample_rows_loaded by (simp add: sample_undated_book_def)
  have books: "load_books (Path [ascii ''data'']) Map.empty [sample_row_w1, sample_row_w2]
      = [sample_undated_book, ?w2]"
    unfolding load_books_def loaded
    by (simp add: book_sort_key_def sample_undated_book_def UNKNOWN_DATE_KEY_def
          less_eq_prod_def)
  have nofile: "iter_matches (text_files sample_world) ?w2 [ascii ''ab''] (Some 1) = []"
    by (simp add: iter_matches_def sample_world_def)
  have scan: "scan_loop (text_files sample_world) [ascii ''ab''] 2 True
                [sample_undated_book, ?w2] []
              = [\<lparr> book = sample_undated_book, line_no = 1, offset = 2,
                    term_s = ascii ''ab'', line = ascii ''xxab'' \<rparr>]"
    by (simp add: sample_iter_matches nofile del: ascii_simps)
  have flags: "limit sample_args = 2" "dedup sample_args = True"
    by (simp_all add: sample_args_def)
  show ?thesis
    unfolding run_query_def tables
    by (simp add: load_date_ranges_def books sample_variants scan flags Let_def
          del: ascii_simps scan_loop.simps)
qed

text \<open>
  C9, as the code has it. For arguments that pass the checks of \<open>main\<close> (a term that
  is not blank, a limit of at least 1): \<open>main\<close> returns 2 exactly when the data
  directory cannot be resolved, and then the error is on the error stream and nothing is
  on the output stream; it returns 0 exactly when the query ran and found a match; it
  returns 1 exactly when the query ran and found none. For a blank term or a limit below
  1, \<open>parser.error\<close> ends the run with exit status 2 before the data directory is
  looked at, with the usage text and its message on the error stream and nothing on the
  output stream.
\<close>

theorem main_exit_codes:
  "(strip (term_arg a) \<noteq> [] \<and> 1 \<le> limit a \<longrightarrow>
      (outcome (main w a) = Return 2 \<longleftrightarrow> (\<exists>e. resolve_data_dir w (data_dir a) = Inl e))
      \<and> (\<forall>e. resolve_data_dir w (data_dir a) = Inl e \<longrightarrow>
             stdout (main w a) = []
             \<and> stderr (main w a) = [ascii ''error: '' @ exn_message e])
      \<and> (outcome (main w a) = Return 0 \<longleftrightarrow>
           (\<exists>dd variants results.
               resolve_data_dir w (data_dir a) = Inr dd
               \<and> run_query w a dd (strip (term_arg a)) = Inr (variants, results)
               \<and> results \<noteq> []))
      \<and> (outcome (main w a) = Return 1 \<longleftrightarrow>
           (\<exists>dd variants.
               resolve_data_dir w (data_dir a) = Inr dd
               \<and> run_query w a dd (strip (term_arg a)) = Inr (variants, []))))
   \<and> (strip (term_arg a) = [] \<longrightarrow>
        outcome (main w a) = SystemExit 2
        \<and> stdout (main w a) = []
        \<and> stderr (main w a) = [usage w, prog w @ ascii '': error: term must be non-empty''])
   \<and> (strip (term_arg a) \<noteq> [] \<and> limit a < 1 \<longrightarrow>
        outcome (main w a) = SystemExit 2
        \<and> stdout (main w a) = []
        \<and> stderr (main w a) = [usage w, prog w @ ascii '': error: limit must be >= 1''])"
proof (intro conjI impI)
  assume "strip (term_arg a) = []"
  then show "outcome (main w a) = SystemExit 2" "stdout (main w a) = []"
    "stderr (main w a) = [usage w, prog w @ ascii '': error: term must be non-empty'']"
    by (simp_all add: main_def Let_def del: ascii_simps)
next
  assume "strip (term_arg a) \<noteq> [] \<and> limit a < 1"
  then show "outcome (main w a) = SystemExit 2" "stdout (main w a) = []"
    "stderr (main w a) = [usage w, prog w @ ascii '': error: limit must be >= 1'']"
    by (simp_all add: main_def Let_def del: ascii_simps)
next
  assume ok: "strip (term_arg a) \<noteq> [] \<and> 1 \<le> limit a"
  then have term_ok: "strip (term_arg a) \<noteq> []" and valid: "\<not> limit a < 1"
    by simp_all
  have all: "(outcome (main w a) = Return 2 \<longleftrightarrow> (\<exists>e. resolve_data_dir w (data_dir a) = Inl e))
      \<and> (\<forall>e. resolve_data_dir w (data_dir a) = Inl e \<longrightarrow>
             stdout (main w a) = []
             \<and> stderr (main w a) = [ascii ''error: '' @ exn_message e])
      \<and> (outcome (main w a) = Return 0 \<longleftrightarrow>
           (\<exists>dd variants results.
               resolve_data_dir w (data_dir a) = Inr dd
               \<and> run_query w a dd (strip (term_arg a)) = Inr (variants, results)
               \<and> results \<noteq> []))
      \<and> (outcome (main w a) = Return 1 \<longleftrightarrow>
           (\<exists>dd variants.
               resolve_data_dir w (data_dir a) = Inr dd
               \<and> run_query w a dd (strip (term_arg a)) = Inr (variants, [])))"
  proof (cases "resolve_data_dir w (data_dir a)")
    case (Inl e)
    then show ?thesis
      using term_ok valid by (simp add: main_def Let_def del: ascii_simps)
  next
    case (Inr dd)
    show ?thesis
    proof (cases "run_query w a dd (strip (term_arg a))")
      case (Inl e)
      then show ?thesis
        using term_ok valid Inr by (simp add: main_def Let_def del: ascii_simps)
    next
      case inr: (Inr vr)
      obtain variants results where vr: "vr = (variants, results)" by (cases vr)
      show ?thesis
        using term_ok valid Inr inr vr
        by (simp add: main_def Let_def del: ascii_simps)
    qed
  qed
  from all show "outcome (main w a) = Return 2
                   \<longleftrightarrow> (\<exists>e. resolve_data_dir w (data_dir a) = Inl e)"
    by (rule conjunct1)
  from all show "\<forall>e. resolve_data_dir w (data_dir a) = Inl e \<longrightarrow>
             stdout (main w a) = []
             \<and> stderr (main w a) = [ascii ''error: '' @ exn_message e]"
    by (elim conjE)
  from all show "outcome (main w a) = Return 0 \<longleftrightarrow>
           (\<exists>dd variants results.
               resolve_data_dir w (data_dir a) = Inr dd
               \<and> run_query w a dd (strip (term_arg a)) = Inr (variants, results)
               \<and> results \<noteq> [])"
    by (elim conjE)
  from all show "outcome (main w a) = Return 1 \<longleftrightarrow>
           (\<exists>dd variants.
               resolve_data_dir w (data_dir a) = Inr dd
               \<and> run_query w a dd (strip (term_arg a)) = Inr (variants, []))"
    by (elim conjE)
qed

theorem main_exit_codes_witness:
  "outcome (main sample_world_missing sample_args) = Return 2
   \<and> stdout (main sample_world_missing sample_args) = []
   \<and> stderr (main sample_world_missing sample_args)
       = [ascii ''error: books.csv not found in data'']
   \<and> outcome (main sample_world_empty sample_args) = Return 1
   \<and> outcome (main sample_world sample_args) = Return 0
   \<and> outcome (main sample_world sample_blank_args) = SystemExit 2
   \<and> stderr (main sample_world sample_blank_args)
       = [ascii ''usage: kratt term'', ascii ''kratt: error: term must be non-empty'']
   \<and> outcome (main sample_world sample_zero_args) = SystemExit 2
   \<and> stderr (main sample_world sample_zero_args)
       = [ascii ''usage: kratt term'', ascii ''kratt: error: limit must be >= 1'']"
proof -
  have valid: "strip (term_arg sample_args) \<noteq> [] \<and> 1 \<le> limit sample_args"
    by (simp add: sample_term) (simp add: sample_args_def)
  have zero: "strip (term_arg sample_zero_args) \<noteq> [] \<and> limit sample_zero_args < 1"
    by (simp add: sample_zero_args_def strip_def lstrip_def rstrip_def is_space_def)
  have texts: "usage sample_world = ascii ''usage: kratt term''"
    "prog sample_world = ascii ''kratt''"
    by (simp_all add: sample_world_def)
  note missing = main_exit_codes [where a = sample_args and w = sample_world_missing]
  note empty = main_exit_codes [where a = sample_args and w = sample_world_empty]
  note found = main_exit_codes [where a = sample_args and w = sample_world]
  note blank = main_exit_codes [where a = sample_blank_args and w = sample_world]
  note low = main_exit_codes [where a = sample_zero_args and w = sample_world]
  have a: "outcome (main sample_world_missing sample_args) = Return 2"
    using missing valid sample_resolve(1) by blast
  have b: "stdout (main sample_world_missing sample_args) = []
           \<and> stderr (main sample_world_missing sample_args)
               = [ascii ''error: '' @ exn_message
                    (FileNotFoundError (ascii ''books.csv not found in data''))]"
    using missing valid sample_resolve(1) by blast
  have c: "outcome (main sample_world_empty sample_args) = Return 1"
    using empty valid sample_resolve(2) sample_query_empty sample_term by metis
  have d: "outcome (main sample_world sample_args) = Return 0"
    using found valid sample_resolve(3) sample_query sample_term
    by (metis list.distinct(1))
  have e: "outcome (main sample_world sample_blank_args) = SystemExit 2
           \<and> stderr (main sample_world sample_blank_args)
               = [usage sample_world,
                  prog sample_world @ ascii '': error: term must be non-empty'']"
    using blank sample_blank_term by blast
  have f: "outcome (main sample_world sample_zero_args) = SystemExit 2
           \<and> stderr (main sample_world sample_zero_args)
               = [usage sample_world,
                  prog sample_world @ ascii '': error: limit must be >= 1'']"
    using low zero by blast
  from a b c d e f show ?thesis unfolding texts by simp
qed

text \<open>
  C9 as stated fails for a blank term: the run ends with exit status 2 although the data
  directory resolves, and where the directory does not resolve \<open>main\<close> does not return
  at all.
\<close>

theorem main_blank_term_counterexample:
  "resolve_data_dir sample_world (data_dir sample_blank_args) = Inr (Path [ascii ''data''])
   \<and> outcome (main sample_world sample_blank_args) = SystemExit 2
   \<and> resolve_data_dir sample_world_missing (data_dir sample_blank_args)
       = Inl (FileNotFoundError (ascii ''books.csv not found in data''))
   \<and> outcome (main sample_world_missing sample_blank_args) = SystemExit 2"
proof -
  have "outcome (main w sample_blank_args) = SystemExit 2" for w
    using sample_blank_term by (simp add: main_def Let_def del: ascii_simps)
  with sample_resolve_blank show ?thesis by (intro conjI)
qed

section \<open>Occurrences and the search\<close>

lemma occurs_at_0: "occurs_at needle hay 0 \<longleftrightarrow> prefix needle hay"
proof
  assume "occurs_at needle hay 0"
  then have "take (length needle) hay = needle" by (simp add: occurs_at_def)
  then show "prefix needle hay" by (metis take_is_prefix)
next
  assume "prefix needle hay"
  then obtain s where "hay = needle @ s" by (auto simp: prefix_def)
  then show "occurs_at needle hay 0" by (simp add: occurs_at_def)
qed

lemma occurs_at_Suc: "occurs_at needle (c # cs) (Suc i) \<longleftrightarrow> occurs_at needle cs i"
  by (simp add: occurs_at_def)

lemma occurs_at_drop:
  "start \<le> length hay \<Longrightarrow> occurs_at needle (drop start hay) i \<longleftrightarrow> occurs_at needle hay (i + start)"
  by (auto simp: occurs_at_def add.commute)

lemma find_first_Some:
  "find_first needle hay = Some i \<Longrightarrow>
     occurs_at needle hay i \<and> (\<forall>k < i. \<not> occurs_at needle hay k)"
proof (induction hay arbitrary: i)
  case Nil
  then show ?case by (auto simp: occurs_at_def split: if_splits)
next
  case (Cons c cs)
  show ?case
  proof (cases "prefix needle (c # cs)")
    case True
    then show ?thesis using Cons.prems by (simp add: occurs_at_0)
  next
    case False
    then obtain j where j: "find_first needle cs = Some j" "i = Suc j"
      using Cons.prems by auto
    from Cons.IH [OF j(1)] have ih: "occurs_at needle cs j" "\<forall>k < j. \<not> occurs_at needle cs k"
      by simp_all
    have "\<not> occurs_at needle (c # cs) k" if "k < i" for k
    proof (cases k)
      case 0
      then show ?thesis using False by (simp add: occurs_at_0)
    next
      case (Suc k')
      then show ?thesis using ih(2) that j(2) by (simp add: occurs_at_Suc)
    qed
    then show ?thesis using ih(1) j(2) by (simp add: occurs_at_Suc)
  qed
qed

lemma find_first_None:
  "find_first needle hay = None \<Longrightarrow> \<not> occurs_at needle hay k"
proof (induction hay arbitrary: k)
  case Nil
  then show ?case by (auto simp: occurs_at_def split: if_splits)
next
  case (Cons c cs)
  then have np: "\<not> prefix needle (c # cs)" and rest: "find_first needle cs = None"
    by (auto split: if_splits)
  show ?case
  proof (cases k)
    case 0
    then show ?thesis using np by (simp add: occurs_at_0)
  next
    case (Suc k')
    then show ?thesis using Cons.IH [OF rest] by (simp add: occurs_at_Suc)
  qed
qed

lemma str_find_Some:
  assumes "str_find hay needle start = Some i"
  shows "start \<le> i" "occurs_at needle hay i"
    "\<And>k. start \<le> k \<Longrightarrow> k < i \<Longrightarrow> \<not> occurs_at needle hay k"
proof -
  from assms obtain j where j: "find_first needle (drop start hay) = Some j"
    "i = j + start" "start \<le> length hay"
    by (auto simp: str_find_def split: if_splits)
  from find_first_Some [OF j(1)]
  have occ: "occurs_at needle (drop start hay) j"
    and first: "\<forall>k < j. \<not> occurs_at needle (drop start hay) k"
    by simp_all
  show "start \<le> i" using j(2) by simp
  show "occurs_at needle hay i" using occ j(2,3) by (simp add: occurs_at_drop)
  show "\<not> occurs_at needle hay k" if "start \<le> k" "k < i" for k
  proof -
    have "k - start < j" using that j(2) by linarith
    with first have "\<not> occurs_at needle (drop start hay) (k - start)" by simp
    then show ?thesis using j(3) that(1) by (simp add: occurs_at_drop)
  qed
qed

lemma str_find_None:
  assumes "str_find hay needle start = None" and "start \<le> k"
  shows "\<not> occurs_at needle hay k"
proof (cases "length hay < start")
  case True
  then show ?thesis using assms(2) by (simp add: occurs_at_def)
next
  case False
  then have "find_first needle (drop start hay) = None"
    using assms(1) by (simp add: str_find_def)
  from find_first_None [OF this, of "k - start"] False assms(2)
  show ?thesis by (simp add: occurs_at_drop)
qed

lemma find_first_sublist:
  "find_first needle hay \<noteq> None \<longleftrightarrow> sublist needle hay"
proof
  assume "find_first needle hay \<noteq> None"
  then obtain i where "find_first needle hay = Some i" by blast
  from find_first_Some [OF this] have "occurs_at needle hay i" by simp
  then have "hay = take i hay @ needle @ drop (i + length needle) hay"
    unfolding occurs_at_def
    by (metis add.commute append_take_drop_id drop_drop)
  then show "sublist needle hay" unfolding sublist_def by blast
next
  assume "sublist needle hay"
  then obtain ps ss where "hay = ps @ needle @ ss" by (auto simp: sublist_def)
  then have "occurs_at needle hay (length ps)" by (simp add: occurs_at_def)
  then show "find_first needle hay \<noteq> None" using find_first_None by blast
qed

lemma line_find_loop_empty: "t = [] \<Longrightarrow> line_find_loop ln t start = []"
  by (subst line_find_loop.simps) simp

lemma line_find_loop_None:
  "str_find ln t start = None \<Longrightarrow> line_find_loop ln t start = []"
  by (subst line_find_loop.simps) simp

lemma line_find_loop_Some:
  "t \<noteq> [] \<Longrightarrow> str_find ln t start = Some idx \<Longrightarrow>
     line_find_loop ln t start = (idx, t) # line_find_loop ln t (idx + length t)"
  by (subst line_find_loop.simps) simp

lemma line_find_loop_sound:
  "(i, u) \<in> set (line_find_loop ln t start) \<Longrightarrow>
     u = t \<and> t \<noteq> [] \<and> start \<le> i \<and> occurs_at t ln i"
proof (induction ln t start rule: line_find_loop.induct)
  case (1 ln t start)
  have ne: "t \<noteq> []"
    using "1.prems" line_find_loop_empty [of t ln start] by auto
  then have ne': "length t \<noteq> 0" by simp
  obtain idx where idx: "str_find ln t start = Some idx"
    using "1.prems" line_find_loop_None [of ln t start]
    by (cases "str_find ln t start") auto
  from "1.prems" line_find_loop_Some [OF ne idx]
  have mem: "(i, u) = (idx, t) \<or> (i, u) \<in> set (line_find_loop ln t (idx + length t))"
    by simp
  from mem show ?case
  proof
    assume "(i, u) = (idx, t)"
    then show ?thesis using str_find_Some(1,2) [OF idx] ne by auto
  next
    assume "(i, u) \<in> set (line_find_loop ln t (idx + length t))"
    from "1.IH" [OF ne' idx this] str_find_Some(1) [OF idx]
    show ?thesis by auto
  qed
qed

lemma line_find_loop_apart:
  "(i, t) \<in> set (line_find_loop ln t start) \<Longrightarrow> (j, t) \<in> set (line_find_loop ln t start)
     \<Longrightarrow> i < j \<Longrightarrow> i + length t \<le> j"
proof (induction ln t start rule: line_find_loop.induct)
  case (1 ln t start)
  have ne: "t \<noteq> []"
    using "1.prems"(1) line_find_loop_empty [of t ln start] by auto
  then have ne': "length t \<noteq> 0" by simp
  obtain idx where idx: "str_find ln t start = Some idx"
    using "1.prems"(1) line_find_loop_None [of ln t start]
    by (cases "str_find ln t start") auto
  note unfold = line_find_loop_Some [OF ne idx]
  have later: "idx + length t \<le> k" if "(k, t) \<in> set (line_find_loop ln t (idx + length t))" for k
    using line_find_loop_sound [OF that] by simp
  from "1.prems"(1,2) unfold
  have ci: "i = idx \<or> (i, t) \<in> set (line_find_loop ln t (idx + length t))"
    and cj: "j = idx \<or> (j, t) \<in> set (line_find_loop ln t (idx + length t))"
    by auto
  show ?case
  proof (cases "i = idx")
    case True
    with cj "1.prems"(3) have "(j, t) \<in> set (line_find_loop ln t (idx + length t))" by auto
    from later [OF this] True show ?thesis by simp
  next
    case False
    with ci have i_in: "(i, t) \<in> set (line_find_loop ln t (idx + length t))" by simp
    from later [OF i_in] "1.prems"(3) have "j \<noteq> idx" by linarith
    with cj have "(j, t) \<in> set (line_find_loop ln t (idx + length t))" by simp
    from "1.IH" [OF ne' idx i_in this "1.prems"(3)] show ?thesis .
  qed
qed

lemma line_find_loop_covers:
  "t \<noteq> [] \<Longrightarrow> occurs_at t ln k \<Longrightarrow> start \<le> k \<Longrightarrow>
     \<exists>j. (j, t) \<in> set (line_find_loop ln t start) \<and> j \<le> k \<and> k < j + length t"
proof (induction ln t start rule: line_find_loop.induct)
  case (1 ln t start)
  have ne: "length t \<noteq> 0" using "1.prems"(1) by simp
  obtain idx where idx: "str_find ln t start = Some idx"
    using str_find_None [of ln t start k] "1.prems"(2,3) by (cases "str_find ln t start") auto
  note unfold = line_find_loop_Some [OF "1.prems"(1) idx]
  have "idx \<le> k"
    using str_find_Some(3) [OF idx, of k] "1.prems"(2,3) by (meson not_le)
  show ?case
  proof (cases "k < idx + length t")
    case True
    then show ?thesis using unfold \<open>idx \<le> k\<close> by auto
  next
    case False
    then have "idx + length t \<le> k" by simp
    from "1.IH" [OF ne idx "1.prems"(1,2) this] unfold show ?thesis by auto
  qed
qed

lemma line_find_loop_distinct: "distinct (line_find_loop ln t start)"
proof (induction ln t start rule: line_find_loop.induct)
  case (1 ln t start)
  show ?case
  proof (cases "t = []")
    case True
    then show ?thesis by (simp add: line_find_loop_empty)
  next
    case ne: False
    show ?thesis
    proof (cases "str_find ln t start")
      case None
      then show ?thesis by (simp add: line_find_loop_None)
    next
      case (Some idx)
      have "(idx, t) \<notin> set (line_find_loop ln t (idx + length t))"
        using line_find_loop_sound [of idx t ln t "idx + length t"] ne by auto
      moreover have "distinct (line_find_loop ln t (idx + length t))"
        using "1.IH" [OF _ Some] ne by simp
      ultimately show ?thesis
        by (simp add: line_find_loop_Some [OF ne Some])
    qed
  qed
qed

section \<open>The matches of one line\<close>

lemma set_iter_line_matches:
  "set (iter_line_matches ln variants) = (\<Union>t \<in> set variants. set (line_find_loop ln t 0))"
  by (simp add: iter_line_matches_def)

lemma distinct_all_loops:
  "distinct variants \<Longrightarrow> distinct (concat (map (\<lambda>t. line_find_loop ln t 0) variants))"
proof (induction variants)
  case Nil
  then show ?case by simp
next
  case (Cons t ts)
  have "set (line_find_loop ln t 0) \<inter> (\<Union>u \<in> set ts. set (line_find_loop ln u 0)) = {}"
  proof (rule ccontr)
    assume "\<not> ?thesis"
    then obtain i v u where "(i, v) \<in> set (line_find_loop ln t 0)" "u \<in> set ts"
      "(i, v) \<in> set (line_find_loop ln u 0)"
      by auto
    then have "v = t" "v = u" "u \<in> set ts"
      using line_find_loop_sound by blast+
    with Cons.prems show False by auto
  qed
  with Cons show ?case
    by (simp add: line_find_loop_distinct)
qed

lemma sample_overlapping_matches:
  "iter_line_matches (ascii ''aaaa'') [ascii ''aa'', ascii ''a'']
     = [(0, ascii ''a''), (0, ascii ''aa''), (1, ascii ''a''), (2, ascii ''a''),
        (2, ascii ''aa''), (3, ascii ''a'')]"
  by (simp add: iter_line_matches_def line_find_loop.simps str_find_def less_eq_prod_def)

text \<open>
  C7. Every pair \<open>iter_line_matches\<close> returns is an occurrence of a non-empty variant
  of the list. Two reported occurrences of one variant start at least its length apart.
  Every occurrence of a non-empty variant lies inside a reported occurrence of that
  variant that starts at or before it, so the reported ones are the occurrences found
  from left to right without overlap; those of different variants are all there,
  overlapping or not. The result is in ascending order of offset, and of variant where
  offsets agree, and has no pair twice when the variant list has no variant twice.
\<close>

theorem iter_line_matches_occurrences:
  fixes ln :: str and variants :: "str list"
  shows
  "(\<forall>i t. (i, t) \<in> set (iter_line_matches ln variants) \<longrightarrow>
        t \<in> set variants \<and> t \<noteq> [] \<and> occurs_at t ln i)
   \<and> (\<forall>i j t. (i, t) \<in> set (iter_line_matches ln variants)
           \<and> (j, t) \<in> set (iter_line_matches ln variants) \<and> i < j
         \<longrightarrow> i + length t \<le> j)
   \<and> (\<forall>t k. t \<in> set variants \<and> t \<noteq> [] \<and> occurs_at t ln k \<longrightarrow>
         (\<exists>j. (j, t) \<in> set (iter_line_matches ln variants) \<and> j \<le> k \<and> k < j + length t))
   \<and> (\<forall>p q. p < q \<and> q < length (iter_line_matches ln variants) \<longrightarrow>
         fst (iter_line_matches ln variants ! p) < fst (iter_line_matches ln variants ! q)
         \<or> fst (iter_line_matches ln variants ! p) = fst (iter_line_matches ln variants ! q)
            \<and> snd (iter_line_matches ln variants ! p) \<le> snd (iter_line_matches ln variants ! q))
   \<and> (distinct variants \<longrightarrow> distinct (iter_line_matches ln variants))"
proof (intro conjI allI impI)
  fix i t
  assume "(i, t) \<in> set (iter_line_matches ln variants)"
  then obtain u where u: "u \<in> set variants" "(i, t) \<in> set (line_find_loop ln u 0)"
    by (auto simp: set_iter_line_matches)
  from line_find_loop_sound [OF u(2)] u(1)
  show "t \<in> set variants" "t \<noteq> []" "occurs_at t ln i"
    by auto
next
  fix i j t
  assume h: "(i, t) \<in> set (iter_line_matches ln variants)
           \<and> (j, t) \<in> set (iter_line_matches ln variants) \<and> i < j"
  then obtain u v where "(i, t) \<in> set (line_find_loop ln u 0)"
    "(j, t) \<in> set (line_find_loop ln v 0)"
    by (auto simp: set_iter_line_matches)
  then have "(i, t) \<in> set (line_find_loop ln t 0)" "(j, t) \<in> set (line_find_loop ln t 0)"
    using line_find_loop_sound by blast+
  from line_find_loop_apart [OF this] h show "i + length t \<le> j" by simp
next
  fix t k
  assume h: "t \<in> set variants \<and> t \<noteq> [] \<and> occurs_at t ln k"
  then obtain j where "(j, t) \<in> set (line_find_loop ln t 0)" "j \<le> k" "k < j + length t"
    using line_find_loop_covers [of t ln k 0] by auto
  with h show "\<exists>j. (j, t) \<in> set (iter_line_matches ln variants) \<and> j \<le> k \<and> k < j + length t"
    by (auto simp: set_iter_line_matches)
next
  fix p q
  let ?R = "iter_line_matches ln variants"
  assume h: "p < q \<and> q < length ?R"
  have "sorted (map (\<lambda>item. (fst item, snd item)) ?R)"
    by (simp add: iter_line_matches_def)
  then have "sorted ?R" by simp
  then have "?R ! p \<le> ?R ! q"
    using h by (simp add: sorted_iff_nth_mono)
  then show "fst (?R ! p) < fst (?R ! q)
         \<or> fst (?R ! p) = fst (?R ! q) \<and> snd (?R ! p) \<le> snd (?R ! q)"
    by (cases "?R ! p"; cases "?R ! q") (auto simp: less_eq_prod_def)
next
  assume "distinct variants"
  then show "distinct (iter_line_matches ln variants)"
    by (simp add: iter_line_matches_def distinct_all_loops)
qed

theorem iter_line_matches_occurrences_witness:
  "iter_line_matches (ascii ''aaaa'') [ascii ''aa'', ascii ''a'']
     = [(0, ascii ''a''), (0, ascii ''aa''), (1, ascii ''a''), (2, ascii ''a''),
        (2, ascii ''aa''), (3, ascii ''a'')]
   \<and> occurs_at (ascii ''aa'') (ascii ''aaaa'') 0
   \<and> occurs_at (ascii ''aa'') (ascii ''aaaa'') 1
   \<and> (0::nat) + length (ascii ''aa'') \<le> 2
   \<and> distinct (iter_line_matches (ascii ''aaaa'') [ascii ''aa'', ascii ''a''])"
proof -
  let ?R = "iter_line_matches (ascii ''aaaa'') [ascii ''aa'', ascii ''a'']"
  note t = iter_line_matches_occurrences [of "ascii ''aaaa''" "[ascii ''aa'', ascii ''a'']"]
  have m0: "(0, ascii ''aa'') \<in> set ?R" and m2: "(2, ascii ''aa'') \<in> set ?R"
    unfolding sample_overlapping_matches by simp_all
  have a: "occurs_at (ascii ''aa'') (ascii ''aaaa'') 0"
    using t m0 by blast
  have b: "(0::nat) + length (ascii ''aa'') \<le> 2"
    using t m0 m2 by (metis zero_less_numeral)
  have occ: "occurs_at (ascii ''aa'') (ascii ''aaaa'') 1"
    by (simp add: occurs_at_def)
  have "ascii ''aa'' \<in> set [ascii ''aa'', ascii ''a''] \<and> ascii ''aa'' \<noteq> []
        \<and> occurs_at (ascii ''aa'') (ascii ''aaaa'') 1"
    using occ by simp
  with t have c: "\<exists>j. (j, ascii ''aa'') \<in> set ?R \<and> j \<le> 1 \<and> 1 < j + length (ascii ''aa'')"
    by blast
  have "distinct [ascii ''aa'', ascii ''a'']" by simp
  with t have d: "distinct ?R" by blast
  from a b occ d sample_overlapping_matches show ?thesis by (intro conjI)
qed

section \<open>The scan loop\<close>

lemma emit_Some: "emit (Some r) ms = take (nat (max r 1)) ms"
proof (induction ms arbitrary: r)
  case Nil
  then show ?case by simp
next
  case (Cons m ms)
  show ?case
  proof (cases "r - 1 \<le> 0")
    case True
    then have "nat (max r 1) = Suc 0" by (simp add: max_def)
    then show ?thesis using True by simp
  next
    case False
    then have "2 \<le> r" by simp
    then have "max r 1 = r" "max (r - 1) 1 = r - 1" "nat r = Suc (nat (r - 1))"
      by linarith+
    then show ?thesis using False Cons.IH [of "r - 1"] by simp
  qed
qed

lemma line_find_loop_nonempty:
  "line_find_loop ln t 0 \<noteq> [] \<longleftrightarrow> t \<noteq> [] \<and> sublist t ln"
proof (cases "t = []")
  case True
  then show ?thesis by (simp add: line_find_loop_empty)
next
  case False
  have "str_find ln t 0 = find_first t ln"
    by (simp add: str_find_def option.map_ident)
  then show ?thesis
    using False find_first_sublist [of t ln]
    by (cases "find_first t ln")
       (auto simp: line_find_loop_None line_find_loop_Some)
qed

lemma iter_line_matches_nonempty:
  "iter_line_matches ln variants \<noteq> [] \<longleftrightarrow> (\<exists>t \<in> set variants. t \<noteq> [] \<and> sublist t ln)"
proof -
  have "iter_line_matches ln variants \<noteq> [] \<longleftrightarrow> set (iter_line_matches ln variants) \<noteq> {}"
    by simp
  also have "\<dots> \<longleftrightarrow> (\<exists>t \<in> set variants. line_find_loop ln t 0 \<noteq> [])"
    unfolding set_iter_line_matches by auto
  finally show ?thesis by (simp add: line_find_loop_nonempty)
qed

lemma candidate_matches_nonempty:
  "candidate_matches b variants n lns \<noteq> [] \<longleftrightarrow>
     (\<exists>raw \<in> set lns. \<exists>t \<in> set variants. t \<noteq> [] \<and> sublist t (rstrip_nl raw))"
  by (induction lns arbitrary: n) (auto simp: Let_def iter_line_matches_nonempty)

lemma candidate_matches_book:
  "m \<in> set (candidate_matches b variants n lns) \<Longrightarrow> book m = b"
  by (induction lns arbitrary: n) (auto simp: Let_def)

lemma iter_matches_length:
  "length (iter_matches fs b variants (Some p)) \<le> nat (max p 1)"
  by (simp add: iter_matches_def emit_Some split: option.splits)

lemma iter_matches_first:
  "map book (iter_matches fs b variants (Some 1))
     = (if work_has_occurrence fs variants b then [b] else [])"
proof (cases "fs (Book.path b)")
  case None
  then show ?thesis by (simp add: iter_matches_def work_has_occurrence_def)
next
  case (Some lns)
  show ?thesis
  proof (cases "candidate_matches b variants 1 lns")
    case Nil
    then show ?thesis
      using Some candidate_matches_nonempty [of b variants 1 lns]
      by (simp add: iter_matches_def work_has_occurrence_def)
  next
    case (Cons m ms)
    then have "book m = b"
      using candidate_matches_book [of m b variants 1 lns] by simp
    then show ?thesis
      using Some Cons candidate_matches_nonempty [of b variants 1 lns]
      by (simp add: iter_matches_def work_has_occurrence_def emit_Some)
  qed
qed

lemma scan_loop_length:
  "length results \<le> nat L \<Longrightarrow> length (scan_loop fs variants L d books results) \<le> nat L"
proof (induction books arbitrary: results)
  case Nil
  then show ?case by simp
next
  case (Cons b books)
  show ?case
  proof (cases "L - int (length results) \<le> 0")
    case True
    then show ?thesis using Cons.prems by simp
  next
    case False
    define per where "per = (if d then 1 else L - int (length results))"
    have per: "1 \<le> per" "per \<le> L - int (length results)"
      using False by (auto simp: per_def)
    have "length (iter_matches fs b variants (Some per)) \<le> nat per"
      using iter_matches_length [of fs b variants per] per(1) by (simp add: max_def)
    then have "int (length (iter_matches fs b variants (Some per))) \<le> per"
      using per(1) by linarith
    then have "int (length (results @ iter_matches fs b variants (Some per))) \<le> L"
      using per(2) by simp
    then have "length (results @ iter_matches fs b variants (Some per)) \<le> nat L"
      by linarith
    from Cons.IH [OF this] show ?thesis
      using False by (simp add: per_def Let_def)
  qed
qed

lemma scan_loop_dedup:
  "length results \<le> nat L \<Longrightarrow>
     map book (scan_loop fs variants L True books results)
       = map book results
         @ take (nat L - length results) (filter (work_has_occurrence fs variants) books)"
proof (induction books arbitrary: results)
  case Nil
  then show ?case by simp
next
  case (Cons b books)
  show ?case
  proof (cases "L - int (length results) \<le> 0")
    case True
    then have "nat L - length results = 0" by linarith
    then show ?thesis using True by simp
  next
    case False
    let ?im = "iter_matches fs b variants (Some 1)"
    have len: "length ?im = (if work_has_occurrence fs variants b then 1 else 0)"
      using iter_matches_first [of fs b variants]
      by (metis (full_types) length_map list.size(3) length_Cons One_nat_def)
    have room: "Suc (length results) \<le> nat L" using False by linarith
    then have "length (results @ ?im) \<le> nat L" using len by simp
    from Cons.IH [OF this]
    have "map book (scan_loop fs variants L True books (results @ ?im))
            = map book (results @ ?im)
              @ take (nat L - length (results @ ?im))
                  (filter (work_has_occurrence fs variants) books)" .
    moreover have "scan_loop fs variants L True (b # books) results
                     = scan_loop fs variants L True books (results @ ?im)"
      using False by (simp add: Let_def)
    ultimately have step: "map book (scan_loop fs variants L True (b # books) results)
            = map book results @ map book ?im
              @ take (nat L - (length results + length ?im))
                  (filter (work_has_occurrence fs variants) books)"
      by simp
    obtain k where k: "nat L - length results = Suc k"
      using room by (cases "nat L - length results") auto
    show ?thesis
    proof (cases "work_has_occurrence fs variants b")
      case True
      then have "map book ?im = [b]" "length ?im = 1"
        using iter_matches_first [of fs b variants] len by simp_all
      moreover have "nat L - (length results + 1) = k" using k by linarith
      ultimately show ?thesis using step True k by simp
    next
      case False
      then have "map book ?im = []" "length ?im = 0"
        using iter_matches_first [of fs b variants] len by simp_all
      then show ?thesis using step False by simp
    qed
  qed
qed

section \<open>The cap and the deduplication\<close>

lemma sample_files_occurrence:
  "work_has_occurrence sample_files [ascii ''ab''] sample_undated_book"
  "work_has_occurrence sample_files [ascii ''ab''] sample_undated_copy"
  "\<not> work_has_occurrence sample_files [ascii ''ab''] sample_early_book"
  by (simp_all add: work_has_occurrence_def sample_files_def sample_undated_book_def
        sample_undated_copy_def sample_early_book_def rstrip_nl_def sublist_code)

text \<open>
  C2, as the code has it. For a limit of at least 1 the scan loop returns at most that
  many matches, with or without deduplication. With deduplication it returns one match
  for each book of the list, in order, whose file exists and holds an occurrence of a
  non-empty variant, up to the limit. So when the work identifiers of the book list are
  pairwise distinct, no two matches share a work identifier and the number of matches is
  the smaller of the limit and the number of distinct works with an occurrence.
\<close>

theorem scan_loop_cap_and_dedup:
  assumes "1 \<le> L"
  shows
  "length (scan_loop fs variants L d books []) \<le> nat L
   \<and> map book (scan_loop fs variants L True books [])
       = take (nat L) (filter (work_has_occurrence fs variants) books)
   \<and> (distinct (map Book.work_id books) \<longrightarrow>
        distinct (map (\<lambda>m. Book.work_id (book m)) (scan_loop fs variants L True books []))
        \<and> length (scan_loop fs variants L True books [])
            = min (nat L)
                (card (Book.work_id ` {b \<in> set books. work_has_occurrence fs variants b})))"
proof (intro conjI impI)
  show "length (scan_loop fs variants L d books []) \<le> nat L"
    by (rule scan_loop_length) simp
  show books_eq: "map book (scan_loop fs variants L True books [])
       = take (nat L) (filter (work_has_occurrence fs variants) books)"
    using scan_loop_dedup [of "[]" L fs variants books] by simp
  assume d: "distinct (map Book.work_id books)"
  have df: "distinct (map Book.work_id (filter (work_has_occurrence fs variants) books))"
    using d by (rule distinct_map_filter)
  have "map (\<lambda>m. Book.work_id (book m)) (scan_loop fs variants L True books [])
          = map Book.work_id (map book (scan_loop fs variants L True books []))"
    by simp
  also have "\<dots> = take (nat L)
                     (map Book.work_id (filter (work_has_occurrence fs variants) books))"
    unfolding books_eq by (simp add: take_map)
  finally show "distinct (map (\<lambda>m. Book.work_id (book m))
                            (scan_loop fs variants L True books []))"
    using df by (simp add: distinct_take)
  have "length (scan_loop fs variants L True books [])
          = length (map book (scan_loop fs variants L True books []))"
    by simp
  also have "\<dots> = min (nat L) (length (filter (work_has_occurrence fs variants) books))"
    unfolding books_eq by (simp add: min.commute)
  also have "length (filter (work_has_occurrence fs variants) books)
               = card (Book.work_id ` {b \<in> set books. work_has_occurrence fs variants b})"
  proof -
    have "card (set (map Book.work_id (filter (work_has_occurrence fs variants) books)))
            = length (map Book.work_id (filter (work_has_occurrence fs variants) books))"
      using df by (rule distinct_card)
    moreover have "set (map Book.work_id (filter (work_has_occurrence fs variants) books))
            = Book.work_id ` {b \<in> set books. work_has_occurrence fs variants b}"
      by auto
    ultimately show ?thesis by simp
  qed
  finally show "length (scan_loop fs variants L True books [])
            = min (nat L)
                (card (Book.work_id ` {b \<in> set books. work_has_occurrence fs variants b}))" .
qed

theorem scan_loop_cap_and_dedup_witness:
  "length (scan_loop sample_files [ascii ''ab''] 1 False
             [sample_early_book, sample_undated_book] []) \<le> 1
   \<and> map book (scan_loop sample_files [ascii ''ab''] 1 True
                  [sample_early_book, sample_undated_book] [])
       = [sample_undated_book]
   \<and> distinct (map Book.work_id [sample_early_book, sample_undated_book])
   \<and> length (scan_loop sample_files [ascii ''ab''] 1 True
               [sample_early_book, sample_undated_book] []) = 1"
proof -
  have one: "(1::int) \<le> 1" by simp
  note t = scan_loop_cap_and_dedup [OF one, of sample_files "[ascii ''ab'']" _
             "[sample_early_book, sample_undated_book]"]
  have d: "distinct (map Book.work_id [sample_early_book, sample_undated_book])"
    by (simp add: sample_early_book_def sample_undated_book_def)
  have a: "length (scan_loop sample_files [ascii ''ab''] 1 False
             [sample_early_book, sample_undated_book] []) \<le> 1"
    using t [of False] by simp
  have b: "map book (scan_loop sample_files [ascii ''ab''] 1 True
                  [sample_early_book, sample_undated_book] [])
       = [sample_undated_book]"
    using t [of True] sample_files_occurrence by simp
  from b have c: "length (scan_loop sample_files [ascii ''ab''] 1 True
               [sample_early_book, sample_undated_book] []) = 1"
    by (metis length_map list.size(3) length_Cons One_nat_def)
  from a b c d show ?thesis by (intro conjI)
qed

text \<open>
  C2 as stated fails for a book list in which two books share a work identifier: both
  copies of W1 hold the term, and with deduplication on the result has two matches for
  W1.
\<close>

theorem scan_loop_shared_work_id_counterexample:
  "map Book.work_id
       (map book (scan_loop sample_files [ascii ''ab''] 10 True
                    [sample_undated_book, sample_undated_copy] []))
     = [ascii ''W1'', ascii ''W1'']
   \<and> Book.work_id sample_undated_book = Book.work_id sample_undated_copy"
proof -
  have "map book (scan_loop sample_files [ascii ''ab''] 10 True
                    [sample_undated_book, sample_undated_copy] [])
          = [sample_undated_book, sample_undated_copy]"
    using scan_loop_dedup [of "[]" 10 sample_files "[ascii ''ab'']"
            "[sample_undated_book, sample_undated_copy]"]
          sample_files_occurrence
    by simp
  then have "map Book.work_id
               (map book (scan_loop sample_files [ascii ''ab''] 10 True
                            [sample_undated_book, sample_undated_copy] []))
          = map Book.work_id [sample_undated_book, sample_undated_copy]"
    by (rule arg_cong)
  then show ?thesis
    by (simp add: sample_undated_book_def sample_undated_copy_def)
qed

section \<open>Snippets\<close>

lemma rstrip_take: "rstrip s = take (length (rstrip s)) s"
proof -
  have "dropWhile is_space (rev s) = drop (length (takeWhile is_space (rev s))) (rev s)"
    by (rule dropWhile_eq_drop)
  then have "rstrip s = rev (drop (length (takeWhile is_space (rev s))) (rev s))"
    by (simp add: rstrip_def)
  also have "\<dots> = take (length s - length (takeWhile is_space (rev s))) s"
    by (simp add: rev_drop)
  finally have eq: "rstrip s = take (length s - length (takeWhile is_space (rev s))) s" .
  then have "length (rstrip s) = length s - length (takeWhile is_space (rev s))"
    by (metis length_take min.absorb2 diff_le_self)
  with eq show ?thesis by simp
qed

lemma rstrip_last: "rstrip s \<noteq> [] \<Longrightarrow> \<not> is_space (last (rstrip s))"
proof -
  assume "rstrip s \<noteq> []"
  then have ne: "dropWhile is_space (rev s) \<noteq> []" by (simp add: rstrip_def)
  then have "\<not> is_space (hd (dropWhile is_space (rev s)))" by (rule hd_dropWhile)
  then show ?thesis using ne by (simp add: rstrip_def last_rev)
qed

lemma rstrip_id: "s = [] \<or> \<not> is_space (last s) \<Longrightarrow> rstrip s = s"
proof (cases "s = []")
  case True
  then show ?thesis by (simp add: rstrip_def)
next
  case False
  assume "s = [] \<or> \<not> is_space (last s)"
  with False have "\<not> is_space (hd (rev s))" by (simp add: hd_rev)
  then have "dropWhile is_space (rev s) = rev s"
    using False by (cases "rev s") auto
  then show ?thesis by (simp add: rstrip_def)
qed

lemma lstrip_append_bracket:
  "\<not> is_space c \<Longrightarrow> lstrip (pre @ c # rest) = lstrip pre @ c # rest"
  by (simp add: lstrip_def dropWhile_append3)

lemma py_slice_nat:
  "py_slice s (int a) (int b) = take (min (length s) b - min (length s) a) (drop (min (length s) a) s)"
  by (simp add: py_slice_def slice_index_def)

lemma untab_length: "length (untab s) = length s"
  by (simp add: untab_def)

lemma shown_line_prefix: "shown_line ln = take (length (shown_line ln)) (untab ln)"
  unfolding shown_line_def by (rule rstrip_take)

lemma shown_match:
  assumes "occurs_at t ln i" and "i + length t \<le> length (shown_line ln)"
  shows "take (length t) (drop i (shown_line ln)) = untab t"
proof -
  have "take (length t) (drop i (shown_line ln))
          = take (length t) (drop i (take (length (shown_line ln)) (untab ln)))"
    using shown_line_prefix [of ln] by simp
  also have "\<dots> = take (length t) (drop i (untab ln))"
    using assms(2) by (simp add: drop_take min_def)
  also have "\<dots> = untab (take (length t) (drop i ln))"
    by (simp add: untab_def take_map drop_map)
  finally show ?thesis using assms(1) by (simp add: occurs_at_def)
qed

lemma render_snippet_parts:
  assumes occ: "occurs_at t ln i" and inside: "i + length t \<le> length (shown_line ln)"
  shows "render_snippet ln (int i) t context =
           strip ((if nat (max context 0) < i then ascii ''...'' else [])
                  @ drop (i - nat (max context 0)) (take i (shown_line ln))
                  @ [91] @ untab t @ [93]
                  @ take (nat (max context 0)) (drop (i + length t) (shown_line ln))
                  @ (if i + length t + nat (max context 0) < length (shown_line ln)
                     then ascii ''...'' else []))"
proof -
  define c where "c = nat (max context 0)"
  define L where "L = shown_line ln"
  define n where "n = length t"
  define N where "N = length L"
  have L: "rstrip (map (\<lambda>c. if c = 9 then 32 else c) ln) = L"
    by (simp add: L_def shown_line_def untab_def)
  have le: "i + n \<le> N" using inside by (simp add: n_def N_def L_def)
  have ctx: "max context 0 = int c" by (simp add: c_def)
  have start: "max 0 (int i - int c) = int (i - c)" by linarith
  have fin: "min (int N) (int i + int n + int c) = int (min N (i + n + c))" by linarith
  have pre: "py_slice L (int (i - c)) (int i) = drop (i - c) (take i L)"
  proof -
    have "min N i = i" "min N (i - c) = i - c" using le by linarith+
    then have "py_slice L (int (i - c)) (int i) = take (i - (i - c)) (drop (i - c) L)"
      by (simp add: py_slice_nat N_def)
    then show ?thesis by (simp add: drop_take)
  qed
  have mat: "py_slice L (int i) (int i + int n) = untab t"
  proof -
    have "min N i = i" "min N (i + n) = i + n" using le by linarith+
    then have "py_slice L (int i) (int i + int n) = take n (drop i L)"
      using py_slice_nat [of L i "i + n"] by (simp add: N_def)
    then show ?thesis
      using shown_match [OF occ inside] by (simp add: L_def n_def)
  qed
  have suf: "py_slice L (int i + int n) (int (min N (i + n + c))) = take c (drop (i + n) L)"
  proof -
    have m: "min N (i + n) = i + n" "min N (min N (i + n + c)) = min N (i + n + c)"
      using le by linarith+
    have "py_slice L (int i + int n) (int (min N (i + n + c)))
            = take (min N (i + n + c) - (i + n)) (drop (i + n) L)"
      using m py_slice_nat [of L "i + n" "min N (i + n + c)"] by (simp add: N_def)
    also have "\<dots> = take c (drop (i + n) L)"
    proof (cases "i + n + c \<le> N")
      case True
      then show ?thesis by (simp add: min_def)
    next
      case False
      then have "min N (i + n + c) - (i + n) = length (drop (i + n) L)"
        "length (drop (i + n) L) \<le> c"
        by (simp_all add: N_def min_def)
      then show ?thesis by simp
    qed
    finally show ?thesis .
  qed
  have lm: "(0 < int (i - c)) = (c < i)" by linarith
  have rm: "(int (min N (i + n + c)) < int N) = (i + n + c < N)" by linarith
  show ?thesis
    unfolding render_snippet_def Let_def L ctx start fin
    unfolding n_def [symmetric] N_def [symmetric] start fin pre mat suf lm rm
    unfolding c_def L_def n_def N_def
    by simp
qed

lemma strip_bracketed:
  assumes lm: "lm = [] \<or> lm = ascii ''...''"
    and rm: "rm = [] \<or> rm = ascii ''...''"
    and tail: "rm = [] \<longrightarrow> suf = [] \<or> \<not> is_space (last suf)"
  shows "strip (lm @ pre @ [91] @ m @ [93] @ suf @ rm)
           = lm @ (if lm = [] then lstrip pre else pre) @ [91] @ m @ [93] @ suf @ rm"
proof -
  have ns: "\<not> is_space 91" "\<not> is_space 93" "\<not> is_space 46"
    by (simp_all add: is_space_def)
  let ?rest = "m @ [93] @ suf @ rm"
  let ?out = "lm @ (if lm = [] then lstrip pre else pre) @ [91] @ ?rest"
  have l: "lstrip (lm @ pre @ [91] @ ?rest) = ?out"
  proof (cases "lm = []")
    case True
    then show ?thesis using lstrip_append_bracket [OF ns(1), of pre ?rest] by simp
  next
    case False
    with lm have "lm = ascii ''...''" by simp
    then show ?thesis using ns(3) by (simp add: lstrip_def)
  qed
  have "?out \<noteq> []" by simp
  moreover have "\<not> is_space (last ?out)"
  proof (cases "rm = []")
    case False
    with rm have "rm = ascii ''...''" by simp
    then show ?thesis using ns(3) by simp
  next
    case True
    show ?thesis
    proof (cases "suf = []")
      case True
      then show ?thesis using \<open>rm = []\<close> ns(2) by simp
    next
      case False
      then show ?thesis using \<open>rm = []\<close> tail by simp
    qed
  qed
  ultimately have "rstrip ?out = ?out" by (simp add: rstrip_id)
  with l show ?thesis by (simp add: strip_def)
qed

lemma sample_line_shown: "shown_line sample_line = ascii ''s ab now''"
  by (simp add: shown_line_def untab_def sample_line_def rstrip_def is_space_def)

lemma sample_line_snippets:
  "render_snippet sample_line 2 (ascii ''ab'') 1 = ascii ''... [ab] ...''"
  "render_snippet sample_line 2 (ascii ''ab'') 2 = ascii ''s [ab] n...''"
  by (simp_all add: render_snippet_def sample_line_def rstrip_def lstrip_def strip_def
        is_space_def py_slice_def slice_index_def Let_def)

text \<open>
  C8, as the code has it. Let the shown line be the line with every tab replaced by one
  space (which keeps its length) and trailing whitespace removed (which leaves a prefix).
  For a term that occurs in the line at a non-negative offset and ends within the shown
  line, \<open>render_snippet\<close> returns the term, with its tabs replaced, between square
  brackets; before it at most \<open>context\<close> characters of the shown line that end
  at the match (exactly \<open>context\<close> after a leading "..." when more than \<open>context\<close>
  characters precede the match, else all of them less leading whitespace); after it the
  next \<open>context\<close> characters of the shown line, or what is left of it, followed by
  "..." exactly when something of the shown line is left out there.
\<close>

theorem render_snippet_window:
  assumes "0 \<le> off" and "occurs_at t ln (nat off)"
    and "nat off + length t \<le> length (shown_line ln)"
  shows
  "\<exists>pre suf.
     render_snippet ln off t context
       = (if max context 0 < off then ascii ''...'' else [])
         @ pre @ [91] @ untab t @ [93] @ suf
         @ (if off + int (length t) + max context 0 < int (length (shown_line ln))
            then ascii ''...'' else [])
     \<and> suffix pre (take (nat off) (shown_line ln))
     \<and> length pre \<le> nat (max context 0)
     \<and> (max context 0 < off \<longrightarrow> length pre = nat (max context 0))
     \<and> (\<not> max context 0 < off \<longrightarrow> pre = lstrip (take (nat off) (shown_line ln)))
     \<and> suf = take (nat (max context 0)) (drop (nat off + length t) (shown_line ln))
     \<and> (off + int (length t) + max context 0 < int (length (shown_line ln))
          \<longleftrightarrow> suf \<noteq> drop (nat off + length t) (shown_line ln))
     \<and> length (untab ln) = length ln
     \<and> prefix (shown_line ln) (untab ln)"
proof -
  define i where "i = nat off"
  define c where "c = nat (max context 0)"
  define L where "L = shown_line ln"
  define n where "n = length t"
  have off: "off = int i" using assms(1) by (simp add: i_def)
  have le: "i + n \<le> length L" using assms(3) by (simp add: i_def n_def L_def)
  define lm where "lm = (if c < i then ascii ''...'' else [])"
  define rm where "rm = (if i + n + c < length L then ascii ''...'' else [])"
  define pre0 where "pre0 = drop (i - c) (take i L)"
  define suf where "suf = take c (drop (i + n) L)"
  define pre where "pre = (if lm = [] then lstrip pre0 else pre0)"
  have occ: "occurs_at t ln i" using assms(2) by (simp add: i_def)
  have ins: "i + length t \<le> length (shown_line ln)" using assms(3) by (simp add: i_def)
  have parts: "render_snippet ln off t context
                 = strip (lm @ pre0 @ [91] @ untab t @ [93] @ suf @ rm)"
    using render_snippet_parts [OF occ ins, of "context"]
    by (simp add: off lm_def rm_def pre0_def suf_def c_def L_def n_def)
  have tail: "rm = [] \<longrightarrow> suf = [] \<or> \<not> is_space (last suf)"
  proof (intro impI)
    assume "rm = []"
    then have "\<not> i + n + c < length L" by (auto simp: rm_def split: if_splits)
    then have whole: "suf = drop (i + n) L" by (simp add: suf_def)
    show "suf = [] \<or> \<not> is_space (last suf)"
    proof (cases "suf = []")
      case True
      then show ?thesis by simp
    next
      case False
      then have "L \<noteq> []" "last suf = last L" using whole by auto
      then show ?thesis using rstrip_last [of "untab ln"] by (simp add: L_def shown_line_def)
    qed
  qed
  have "strip (lm @ pre0 @ [91] @ untab t @ [93] @ suf @ rm)
          = lm @ pre @ [91] @ untab t @ [93] @ suf @ rm"
    unfolding pre_def by (rule strip_bracketed) (auto simp: lm_def rm_def tail)
  with parts have result: "render_snippet ln off t context
                 = lm @ pre @ [91] @ untab t @ [93] @ suf @ rm"
    by simp
  have lm_int: "(max context 0 < off) = (c < i)"
    using assms(1) by (simp add: c_def i_def; linarith?)
  have rm_int: "(off + int (length t) + max context 0 < int (length (shown_line ln)))
                  = (i + n + c < length L)"
    using assms(1) by (simp add: c_def i_def n_def L_def; linarith?)
  have s0: "suffix pre0 (take i L)" by (simp add: pre0_def suffix_drop)
  have "suffix pre pre0" by (simp add: pre_def lstrip_def suffix_dropWhile)
  with s0 have s1: "suffix pre (take i L)" by (meson suffix_order.trans)
  have len0: "length pre0 = min i c" using le by (simp add: pre0_def; linarith?)
  have "length pre \<le> length pre0"
    by (simp add: pre_def lstrip_def length_dropWhile_le)
  with len0 have s2: "length pre \<le> c" by simp
  have s3: "c < i \<longrightarrow> length pre = c"
    using len0 by (simp add: pre_def lm_def)
  have s4: "\<not> c < i \<longrightarrow> pre = lstrip (take i L)"
    by (simp add: pre_def lm_def pre0_def)
  have s5: "(i + n + c < length L) \<longleftrightarrow> suf \<noteq> drop (i + n) L"
  proof
    assume "i + n + c < length L"
    then have "length suf < length (drop (i + n) L)" by (simp add: suf_def)
    then show "suf \<noteq> drop (i + n) L" by auto
  next
    assume "suf \<noteq> drop (i + n) L"
    then show "i + n + c < length L"
      by (rule contrapos_np) (simp add: suf_def)
  qed
  have s6: "prefix (shown_line ln) (untab ln)"
    using shown_line_prefix [of ln] by (metis take_is_prefix)
  show ?thesis
    apply (rule exI [of _ pre], rule exI [of _ suf])
    unfolding lm_int rm_int
    using result s1 s2 s3 s4 s5 s6
    by (simp add: lm_def rm_def suf_def i_def c_def L_def n_def untab_length)
qed

theorem render_snippet_window_witness:
  "render_snippet sample_line 2 (ascii ''ab'') 1 = ascii ''... [ab] ...''
   \<and> render_snippet sample_line 2 (ascii ''ab'') 2 = ascii ''s [ab] n...''
   \<and> (\<exists>pre. render_snippet sample_line 2 (ascii ''ab'') 1
               = ascii ''...'' @ pre @ ascii ''[ab] ...'' \<and> length pre = 1)
   \<and> (\<exists>pre. render_snippet sample_line 2 (ascii ''ab'') 2
               = pre @ ascii ''[ab] n...'' \<and> pre = lstrip (ascii ''s ''))"
proof -
  have h1: "(0::int) \<le> 2" by simp
  have h2: "occurs_at (ascii ''ab'') sample_line (nat 2)"
    by (simp add: occurs_at_def sample_line_def)
  have h3: "nat 2 + length (ascii ''ab'') \<le> length (shown_line sample_line)"
    unfolding sample_line_shown by simp
  note h = h1 h2 h3
  have u: "untab (ascii ''ab'') = ascii ''ab''" by (simp add: untab_def)
  have a: "\<exists>pre. render_snippet sample_line 2 (ascii ''ab'') 1
               = ascii ''...'' @ pre @ ascii ''[ab] ...'' \<and> length pre = 1"
    using render_snippet_window [OF h, of 1] unfolding sample_line_shown u
    by auto
  have b: "\<exists>pre. render_snippet sample_line 2 (ascii ''ab'') 2
               = pre @ ascii ''[ab] n...'' \<and> pre = lstrip (ascii ''s '')"
    using render_snippet_window [OF h, of 2] unfolding sample_line_shown u
    by auto
  from a b sample_line_snippets show ?thesis by (intro conjI)
qed

text \<open>
  C8 as stated fails for a match that reaches into the trailing whitespace: the space
  matched at offset 1 of "a " is trimmed before the window is cut, and the brackets
  come back empty.
\<close>

theorem render_snippet_trimmed_counterexample:
  "occurs_at [32] [97, 32] 1 \<and> render_snippet [97, 32] 1 [32] 5 = [97, 91, 93]"
  by (simp add: occurs_at_def render_snippet_def rstrip_def lstrip_def strip_def
        is_space_def py_slice_def slice_index_def Let_def)


end
